theory Spec2Isabelle
  imports Main "HOL-Library.Word" "HOL-Library.Sublist"
begin

section \<open>C strings\<close>

text \<open>
  A \<^verbatim>\<open>char const*\<close> argument is modelled by a \<open>string option\<close>: \<open>None\<close> is the null
  pointer, \<open>Some bs\<close> a pointer to the bytes \<open>bs\<close>, which are followed in memory by the
  terminating NUL. The C string such a pointer denotes is \<open>c_str bs\<close>, the bytes before the
  first NUL; every consumer of a C string (\<^verbatim>\<open>strlen\<close>, \<^verbatim>\<open>strpbrk\<close>, a loop on
  \<^verbatim>\<open>text[i]\<close>, the stream inserter) reads no further. A \<^verbatim>\<open>std::string\<close> is the list of
  its bytes and may hold NUL bytes; its \<^verbatim>\<open>c_str()\<close> is a pointer to those bytes.
  A data member \<^verbatim>\<open>x_\<close> of the source is written \<open>x_m\<close>.
\<close>

definition NUL :: char where
  "NUL = CHR 0x00"

definition squote :: char where
  "squote = CHR 0x27"

definition bslash :: char where
  "bslash = CHR 0x5C"

definition c_str :: "string \<Rightarrow> string" where
  "c_str bs = takeWhile (\<lambda>c. c \<noteq> NUL) bs"

definition strlen :: "string \<Rightarrow> nat" where
  "strlen bs = length (c_str bs)"

text \<open>\<^verbatim>\<open>*text\<close>: the first byte at the pointer (the terminator when there is no other).\<close>

definition deref :: "string \<Rightarrow> char" where
  "deref bs = (case bs of [] \<Rightarrow> NUL | c # _ \<Rightarrow> c)"

text \<open>
  \<^verbatim>\<open>strpbrk(text, accept)\<close> of the C library: the position (here the rest of the text from
  that position on) of the first byte of the C string \<open>text\<close> that is one of the bytes of
  the C string \<open>accept\<close>, or the null pointer.
\<close>

fun strpbrk :: "string \<Rightarrow> string \<Rightarrow> string option" where
  "strpbrk [] accept = None"
| "strpbrk (c # cs) accept =
     (if c = NUL then None
      else if c \<in> set (c_str accept) then Some (c # cs)
      else strpbrk cs accept)"

section \<open>Values: \<^verbatim>\<open>sql_type\<close>, \<^verbatim>\<open>result_type\<close>, \<^verbatim>\<open>field_type\<close>\<close>

datatype sql_type = SQL_INVALID | SQL_NULL | SQL_INTEGER | SQL_FLOAT | SQL_TEXT | SQL_BLOB

datatype result_type = SQL_OK | SQL_IMPROPER | SQL_NO_MEMORY | SQL_SERVER_LOST | SQL_UNKNOWN_ERROR

text \<open>
  \<^verbatim>\<open>struct field_type\<close> keeps all five members whatever the tag is. The type \<open>'f\<close> stands
  for \<^verbatim>\<open>double\<close>: no claim computes with it, so it stays a parameter, and what the source
  does with a double (printing it, comparing two of them) is passed where it is needed.
\<close>

record 'f field_type =
  int_m :: "64 word"
  float_m :: 'f
  str_m :: string
  name_m :: string
  type_m :: sql_type

text \<open>The default constructor: \<^verbatim>\<open>int_ = {}\<close>, \<^verbatim>\<open>float_ = {}\<close>, empty strings, \<^verbatim>\<open>SQL_INVALID\<close>.\<close>

definition field_default :: "'f::zero field_type" where
  "field_default = \<lparr>int_m = 0, float_m = 0, str_m = [], name_m = [], type_m = SQL_INVALID\<rparr>"

text \<open>\<^verbatim>\<open>field_type(std::string const& name)\<close>, a NULL value.\<close>

definition field_null :: "string \<Rightarrow> 'f::zero field_type" where
  "field_null name = field_default\<lparr>name_m := name, type_m := SQL_NULL\<rparr>"

text \<open>\<^verbatim>\<open>field_type(std::string const& s, std::string const& name)\<close>, a text value.\<close>

definition field_text :: "string \<Rightarrow> string \<Rightarrow> 'f::zero field_type" where
  "field_text s name = field_default\<lparr>str_m := s, name_m := name, type_m := SQL_TEXT\<rparr>"

text \<open>\<^verbatim>\<open>field_type(blob const& b, std::string const& name)\<close>: the blob's bytes go to \<^verbatim>\<open>str_\<close>.\<close>

definition field_blob :: "string \<Rightarrow> string \<Rightarrow> 'f::zero field_type" where
  "field_blob b name = field_default\<lparr>str_m := b, name_m := name, type_m := SQL_BLOB\<rparr>"

section \<open>The query builder\<close>

text \<open>
  \<^verbatim>\<open>class query\<close>: the text accumulated in the string stream \<^verbatim>\<open>query_\<close> (its
  \<^verbatim>\<open>str()\<close>) and the binding list \<^verbatim>\<open>bind_\<close>.
\<close>

record 'f query =
  query_m :: string
  bind_m :: "'f field_type list"

definition query_default :: "'f query" where
  "query_default = \<lparr>query_m = [], bind_m = []\<rparr>"

text \<open>
  The loop of \<^verbatim>\<open>operator<<(char const*)\<close>: \<^verbatim>\<open>for (i = 0; text[i]; ++i)\<close> writes
  \<^verbatim>\<open>text[i]\<close>, then a second quote if it is a quote, then a second backslash if it is a
  backslash. The second argument is the stream's contents.
\<close>

fun escape_loop :: "string \<Rightarrow> string \<Rightarrow> string" where
  "escape_loop [] out = out"
| "escape_loop (c # cs) out =
     (if c = NUL then out
      else escape_loop cs
        (let out1 = out @ [c];
             out2 = (if c = squote then out1 @ [squote] else out1)
         in (if c = bslash then out2 @ [bslash] else out2)))"

text \<open>\<^verbatim>\<open>query& operator<<(char const* text)\<close>.\<close>

definition append_text :: "string option \<Rightarrow> 'f query \<Rightarrow> 'f query" where
  "append_text text q =
     (case text of
        None \<Rightarrow> q
      | Some bs \<Rightarrow>
          if deref bs = NUL then q
          else if strpbrk bs [squote, bslash] = None
            then q\<lparr>query_m := query_m q @ c_str bs\<rparr>
          else q\<lparr>query_m := escape_loop bs (query_m q)\<rparr>)"

text \<open>
  \<^verbatim>\<open>query(std::string const& str = {})\<close>: the members start empty and the body is
  \<^verbatim>\<open>(*this) << str.c_str()\<close>.
\<close>

definition query_ctor :: "string \<Rightarrow> 'f query" where
  "query_ctor str = append_text (Some str) query_default"

text \<open>
  The escaped form of a text in the words of the specification: each quote and each
  backslash is doubled, every other character stands as it is.
\<close>

definition escape_char :: "char \<Rightarrow> string" where
  "escape_char c = (if c = squote \<or> c = bslash then [c, c] else [c])"

definition escaped :: "string \<Rightarrow> string" where
  "escaped s = concat (map escape_char s)"

text \<open>
  \<^verbatim>\<open>bind(param, t)\<close> in all its overloads: \<^verbatim>\<open>bind_.emplace_back(value, param)\<close>, where
  the new entry is the field built from the value and the name.
\<close>

definition bind :: "'f field_type \<Rightarrow> 'f query \<Rightarrow> 'f query" where
  "bind f q = q\<lparr>bind_m := bind_m q @ [f]\<rparr>"

text \<open>
  \<^verbatim>\<open>cursor execute()\<close>:
  \<^verbatim>\<open>auto cursor = execute_impl(query_.str().c_str(), std::move(bind_)); query_.str({});\<close>
  The driver's \<^verbatim>\<open>execute_impl\<close> is a parameter; it works on the state \<open>'d\<close> of the
  database and returns a cursor \<open>'c\<close>. Its first argument is a pointer to the bytes of the
  stream. Its second argument is move-constructed from \<^verbatim>\<open>bind_\<close>, which leaves
  \<^verbatim>\<open>bind_\<close> empty.
\<close>

definition execute ::
  "(string option \<Rightarrow> 'f field_type list \<Rightarrow> 'd \<Rightarrow> 'c \<times> 'd) \<Rightarrow> 'f query \<Rightarrow> 'd \<Rightarrow> 'c \<times> 'f query \<times> 'd" where
  "execute execute_impl q d =
     (let arg = bind_m q;
          q1 = q\<lparr>bind_m := []\<rparr>;
          (cursor, d') = execute_impl (Some (query_m q1)) arg d;
          q2 = q1\<lparr>query_m := []\<rparr>
      in (cursor, q2, d'))"

section \<open>Rows\<close>

type_synonym 'f row = "'f field_type list"

text \<open>\<^verbatim>\<open>invalid<field_type>()\<close>: one default-constructed field, shared by all lookups.\<close>

definition invalid_field :: "'f::zero field_type" where
  "invalid_field = field_default"

text \<open>\<^verbatim>\<open>row::operator[](size_type idx)\<close>.\<close>

definition row_at :: "'f::zero row \<Rightarrow> nat \<Rightarrow> 'f field_type" where
  "row_at r idx = (if idx < length r then r ! idx else invalid_field)"

text \<open>
  \<^verbatim>\<open>row::operator[](char const* colname)\<close>: the first field with
  \<^verbatim>\<open>colname && it->name() == colname\<close>; the comparison of a \<^verbatim>\<open>std::string\<close> with a
  C string compares with the bytes before the terminator.
\<close>

fun row_named :: "'f::zero row \<Rightarrow> string option \<Rightarrow> 'f field_type" where
  "row_named [] colname = invalid_field"
| "row_named (f # fs) colname =
     (if (case colname of None \<Rightarrow> False | Some bs \<Rightarrow> name_m f = c_str bs) then f
      else row_named fs colname)"

text \<open>
  \<^verbatim>\<open>field_type::operator==(field_type const&)\<close>; \<open>close x y\<close> stands for
  \<^verbatim>\<open>std::fabs(x - y) < std::numeric_limits<double>::epsilon()\<close>.
\<close>

definition field_eq :: "('f \<Rightarrow> 'f \<Rightarrow> bool) \<Rightarrow> 'f field_type \<Rightarrow> 'f field_type \<Rightarrow> bool" where
  "field_eq close a b =
     (type_m a = type_m b \<and> int_m a = int_m b \<and> str_m a = str_m b \<and> name_m a = name_m b
      \<and> close (float_m a) (float_m b))"

text \<open>\<^verbatim>\<open>row::operator==\<close>: equal sizes and \<^verbatim>\<open>std::equal\<close> on the fields.\<close>

definition row_eq :: "('f \<Rightarrow> 'f \<Rightarrow> bool) \<Rightarrow> 'f row \<Rightarrow> 'f row \<Rightarrow> bool" where
  "row_eq close r1 r2 = (length r1 = length r2 \<and> list_all2 (field_eq close) r1 r2)"

text \<open>A row for concrete runs: three text columns, two of them named b.\<close>

definition demo_row :: "nat row" where
  "demo_row = [field_text ''x'' ''a'', field_text ''y'' ''b'', field_text ''z'' ''b'']"

section \<open>Statements, iterators and cursors\<close>

text \<open>
  \<^verbatim>\<open>class statement\<close> is an interface; an implementation is its virtual functions, acting
  on the state \<open>'s\<close> of the statement object.
\<close>

record ('s, 'f) statement =
  stmt_next :: "'s \<Rightarrow> 'f row \<times> 's"
  stmt_first :: "'s \<Rightarrow> 's"
  stmt_result :: "'s \<Rightarrow> result_type"
  stmt_last_id :: "'s \<Rightarrow> 64 word"
  stmt_affected_rows :: "'s \<Rightarrow> 64 word"

text \<open>
  A cursor owns its statement object (a \<^verbatim>\<open>shared_ptr\<close>); the state of that object is
  threaded through the operations. An iterator holds a row and a \<^verbatim>\<open>weak_ptr\<close>:
  \<open>stmt_m\<close> tells whether it refers to the cursor's statement, which is alive as long as
  the cursor is, or to no object.
\<close>

record 'f iterator =
  row_m :: "'f row"
  stmt_m :: bool

text \<open>\<^verbatim>\<open>iterator::next()\<close>: \<^verbatim>\<open>if (auto stmt = stmt_.lock()) row_ = stmt->next();\<close>\<close>

definition iterator_next :: "('s, 'f) statement \<Rightarrow> 'f iterator \<Rightarrow> 's \<Rightarrow> 'f iterator \<times> 's" where
  "iterator_next st it s =
     (if stmt_m it then (let (r, s') = stmt_next st s in (it\<lparr>row_m := r\<rparr>, s')) else (it, s))"

text \<open>\<^verbatim>\<open>iterator(std::weak_ptr<statement> stmt)\<close>: an empty row, then \<^verbatim>\<open>next()\<close>.\<close>

definition iterator_ctor :: "('s, 'f) statement \<Rightarrow> bool \<Rightarrow> 's \<Rightarrow> 'f iterator \<times> 's" where
  "iterator_ctor st observed s = iterator_next st \<lparr>row_m = [], stmt_m = observed\<rparr> s"

text \<open>\<^verbatim>\<open>iterator::operator==\<close> compares the rows only.\<close>

definition iterator_eq :: "('f \<Rightarrow> 'f \<Rightarrow> bool) \<Rightarrow> 'f iterator \<Rightarrow> 'f iterator \<Rightarrow> bool" where
  "iterator_eq close a b = row_eq close (row_m a) (row_m b)"

text \<open>\<^verbatim>\<open>cursor::begin()\<close>: \<^verbatim>\<open>stmt_->first(); return { stmt_ };\<close>\<close>

definition cursor_begin :: "('s, 'f) statement \<Rightarrow> 's \<Rightarrow> 'f iterator \<times> 's" where
  "cursor_begin st s = iterator_ctor st True (stmt_first st s)"

text \<open>\<^verbatim>\<open>cursor::end()\<close>: \<^verbatim>\<open>return { std::shared_ptr<statement>() };\<close>\<close>

definition cursor_end :: "('s, 'f) statement \<Rightarrow> 's \<Rightarrow> 'f iterator \<times> 's" where
  "cursor_end st s = iterator_ctor st False s"

text \<open>A statement over a fixed list of rows, for concrete runs: the rows not yet pulled.\<close>

definition list_statement :: "'f row list \<Rightarrow> ('f row list, 'f) statement" where
  "list_statement rows =
     \<lparr>stmt_next = (\<lambda>s. case s of [] \<Rightarrow> ([], []) | r # rs \<Rightarrow> (r, rs)),
      stmt_first = (\<lambda>s. rows),
      stmt_result = (\<lambda>s. SQL_OK),
      stmt_last_id = (\<lambda>s. 0),
      stmt_affected_rows = (\<lambda>s. 0)\<rparr>"

section \<open>Printing a field\<close>

text \<open>
  What \<^verbatim>\<open>operator<<\<close> of a stream prints for an integer: the digits in base 10, or in
  base 16 with lowercase letters after \<^verbatim>\<open>std::hex\<close>. The field width of the stream is 0
  throughout the source (no \<^verbatim>\<open>std::setw\<close>), so nothing is padded.
\<close>

definition digit_char :: "nat \<Rightarrow> char" where
  "digit_char d = (if d < 10 then char_of (48 + d) else char_of (87 + d))"

function show_nat :: "nat \<Rightarrow> nat \<Rightarrow> string" where
  "show_nat b n =
     (if n < b \<or> b < 2 then [digit_char n] else show_nat b (n div b) @ [digit_char (n mod b)])"
  by pat_completeness auto
termination
  by (relation "measure (\<lambda>(b, n). n)") auto

declare show_nat.simps [simp del]

definition show_int :: "int \<Rightarrow> string" where
  "show_int i = (if i < 0 then CHR ''-'' # show_nat 10 (nat (- i)) else show_nat 10 (nat i))"

text \<open>
  \<^verbatim>\<open>field_type::toString()\<close>. For a blob each byte \<^verbatim>\<open>v\<close> is printed as the integer
  \<^verbatim>\<open>int(v) & 0xFF\<close> in base 16. \<open>show_double\<close> stands for the stream's printing of a
  \<^verbatim>\<open>double\<close>.
\<close>

definition toString :: "('f \<Rightarrow> string) \<Rightarrow> 'f field_type \<Rightarrow> string" where
  "toString show_double f =
     (case type_m f of
        SQL_TEXT \<Rightarrow> str_m f
      | SQL_INTEGER \<Rightarrow> show_int (sint (int_m f))
      | SQL_FLOAT \<Rightarrow> show_double (float_m f)
      | SQL_BLOB \<Rightarrow> [bslash, CHR ''x''] @ concat (map (\<lambda>v. show_nat 16 (of_char v mod 256)) (str_m f))
      | SQL_NULL \<Rightarrow> ''NULL''
      | SQL_INVALID \<Rightarrow> ''INVALID'')"

section \<open>Scoped transactions\<close>

text \<open>
  The three drivers' \<^verbatim>\<open>class transaction\<close> differ only in the native call that sends a
  command and in the test of its success (\<^verbatim>\<open>mysql_query(db_, cmd) == 0\<close>,
  \<^verbatim>\<open>sqlite3_exec(db_, cmd, ...) == SQLITE_OK\<close>,
  \<^verbatim>\<open>res && PQresultStatus(res) == PGRES_COMMAND_OK\<close>). That call with its test is the
  parameter \<open>native\<close>: from the state \<open>'d\<close> of the connection and a command to the success
  flag and the new state.
\<close>

record transaction =
  finished_m :: bool

definition tr_begin :: "('d \<Rightarrow> string \<Rightarrow> bool \<times> 'd) \<Rightarrow> 'd \<Rightarrow> bool \<times> 'd" where
  "tr_begin native d = native d ''BEGIN;''"

text \<open>\<^verbatim>\<open>transaction(db)\<close>: \<^verbatim>\<open>finished_ = !begin();\<close>\<close>

definition transaction_ctor :: "('d \<Rightarrow> string \<Rightarrow> bool \<times> 'd) \<Rightarrow> 'd \<Rightarrow> transaction \<times> 'd" where
  "transaction_ctor native d = (let (ok, d') = tr_begin native d in (\<lparr>finished_m = \<not> ok\<rparr>, d'))"

definition commit ::
  "('d \<Rightarrow> string \<Rightarrow> bool \<times> 'd) \<Rightarrow> transaction \<Rightarrow> 'd \<Rightarrow> bool \<times> transaction \<times> 'd" where
  "commit native t d =
     (if finished_m t then (True, t, d)
      else (let (ok, d') = native d ''COMMIT;''; t' = t\<lparr>finished_m := ok\<rparr>
            in (finished_m t', t', d')))"

definition rollback ::
  "('d \<Rightarrow> string \<Rightarrow> bool \<times> 'd) \<Rightarrow> transaction \<Rightarrow> 'd \<Rightarrow> bool \<times> transaction \<times> 'd" where
  "rollback native t d =
     (if finished_m t then (True, t, d)
      else (let (ok, d') = native d ''ROLLBACK;''; t' = t\<lparr>finished_m := ok\<rparr>
            in (finished_m t', t', d')))"

text \<open>\<^verbatim>\<open>~transaction() { rollback(); }\<close>: what is left is the state of the connection.\<close>

definition transaction_dtor :: "('d \<Rightarrow> string \<Rightarrow> bool \<times> 'd) \<Rightarrow> transaction \<Rightarrow> 'd \<Rightarrow> 'd" where
  "transaction_dtor native t d = snd (snd (rollback native t d))"

text \<open>
  A connection for concrete runs: its state is the list of the commands sent so far, and
  a command succeeds unless it is one of \<open>failing\<close>.
\<close>

definition log_native :: "string list \<Rightarrow> string list \<Rightarrow> string \<Rightarrow> bool \<times> string list" where
  "log_native failing d cmd = (cmd \<notin> set failing, d @ [cmd])"

section \<open>The drivers' statements\<close>

text \<open>
  What the three \<^verbatim>\<open>statement\<close> classes share: the outcome, the last generated
  identifier and the number of affected rows, the latter two with the member initialiser
  \<^verbatim>\<open>= 0\<close>.
\<close>

record statement_members =
  result_m :: result_type
  last_id_m :: "64 word"
  affected_rows_m :: "64 word"

text \<open>
  The values of \<^verbatim>\<open>mysql_stmt_errno\<close> that the constructor of
  \<^verbatim>\<open>mysqlxx::statement\<close> tells apart; the numbers are those of the client library's
  \<^verbatim>\<open>errmsg.h\<close>, distinct and not 0, and every other error number is \<open>CR_other\<close>.
\<close>

datatype mysql_errno =
  CR_none | CR_COMMANDS_OUT_OF_SYNC | CR_OUT_OF_MEMORY | CR_SERVER_GONE_ERROR | CR_SERVER_LOST
  | CR_UNKNOWN_ERROR | CR_other

text \<open>
  What the native calls of the constructor return for the statement handle it is given:
  the error number, the field count of the result metadata (\<open>None\<close> for a null
  \<^verbatim>\<open>MYSQL_RES*\<close>), the insert id and the affected rows.
\<close>

record mysql_stmt =
  mysql_stmt_errno :: mysql_errno
  mysql_stmt_result_metadata :: "nat option"
  mysql_stmt_insert_id :: "64 word"
  mysql_stmt_affected_rows :: "64 word"

record mysql_statement = statement_members +
  num_m :: nat
  res_m :: "nat option"

text \<open>
  \<^verbatim>\<open>mysqlxx::statement::statement(db const&, MYSQL_STMT*)\<close>: every case but 0 sets the
  outcome and returns; the last line clears an affected-row count that is negative as a
  signed number. The member \<^verbatim>\<open>result_\<close> has no initialiser and is assigned in every
  case, so the value it starts with here is never read.
\<close>

definition mysql_statement_ctor :: "mysql_stmt \<Rightarrow> mysql_statement" where
  "mysql_statement_ctor stmt =
     (let this = \<lparr>result_m = SQL_OK, last_id_m = 0, affected_rows_m = 0, num_m = 0, res_m = None\<rparr>
      in case mysql_stmt_errno stmt of
           CR_none \<Rightarrow>
             (let this = this\<lparr>result_m := SQL_OK\<rparr>;
                  this = this\<lparr>res_m := mysql_stmt_result_metadata stmt\<rparr>;
                  this = (case res_m this of None \<Rightarrow> this | Some n \<Rightarrow> this\<lparr>num_m := n\<rparr>);
                  this = this\<lparr>last_id_m := mysql_stmt_insert_id stmt\<rparr>;
                  this = this\<lparr>affected_rows_m := mysql_stmt_affected_rows stmt\<rparr>
              in if sint (affected_rows_m this) < 0 then this\<lparr>affected_rows_m := 0\<rparr> else this)
         | CR_COMMANDS_OUT_OF_SYNC \<Rightarrow> this\<lparr>result_m := SQL_IMPROPER\<rparr>
         | CR_OUT_OF_MEMORY \<Rightarrow> this\<lparr>result_m := SQL_NO_MEMORY\<rparr>
         | CR_SERVER_GONE_ERROR \<Rightarrow> this\<lparr>result_m := SQL_SERVER_LOST\<rparr>
         | CR_SERVER_LOST \<Rightarrow> this\<lparr>result_m := SQL_SERVER_LOST\<rparr>
         | CR_UNKNOWN_ERROR \<Rightarrow> this\<lparr>result_m := SQL_UNKNOWN_ERROR\<rparr>
         | CR_other \<Rightarrow> this\<lparr>result_m := SQL_UNKNOWN_ERROR\<rparr>)"

text \<open>
  \<^verbatim>\<open>ExecStatusType\<close> of libpq, as far as the constructor of \<^verbatim>\<open>pqsqlxx::statement\<close>
  tells its values apart.
\<close>

datatype pq_status =
  PGRES_EMPTY_QUERY | PGRES_COMMAND_OK | PGRES_TUPLES_OK | PGRES_BAD_RESPONSE
  | PGRES_NONFATAL_ERROR | PGRES_FATAL_ERROR | PGRES_other

text \<open>
  A non-null \<^verbatim>\<open>PGresult*\<close>: its status, \<^verbatim>\<open>PQoidValue\<close>, and the number that
  \<^verbatim>\<open>strtoull\<close> reads from \<^verbatim>\<open>PQcmdTuples\<close>.
\<close>

record pq_result =
  PQresultStatus :: pq_status
  PQoidValue :: "64 word"
  PQcmdTuples :: "64 word"

record pq_statement = statement_members +
  close_m :: string
  fetch_next_m :: string
  move_first_m :: string

text \<open>
  \<^verbatim>\<open>pqsqlxx::statement::statement(db const&, pqresult res, std::string const& cur)\<close>;
  \<open>connection_ok\<close> is \<^verbatim>\<open>PQstatus(db_()) == CONNECTION_OK\<close>. A fatal error on a good
  connection falls through to the default case.
\<close>

definition pq_statement_ctor :: "bool \<Rightarrow> pq_result option \<Rightarrow> string \<Rightarrow> pq_statement" where
  "pq_statement_ctor connection_ok res cur =
     (let this = \<lparr>result_m = SQL_NO_MEMORY, last_id_m = 0, affected_rows_m = 0,
                  close_m = [], fetch_next_m = [], move_first_m = []\<rparr>
      in case res of
           None \<Rightarrow> this
         | Some r \<Rightarrow>
             (let ok = this\<lparr>result_m := SQL_OK,
                        close_m := ''CLOSE '' @ cur,
                        fetch_next_m := ''FETCH NEXT in '' @ cur,
                        move_first_m := ''MOVE BACKWARD ALL in '' @ cur,
                        last_id_m := PQoidValue r,
                        affected_rows_m := PQcmdTuples r\<rparr>
              in case PQresultStatus r of
                   PGRES_COMMAND_OK \<Rightarrow> ok
                 | PGRES_NONFATAL_ERROR \<Rightarrow> ok
                 | PGRES_BAD_RESPONSE \<Rightarrow> this\<lparr>result_m := SQL_UNKNOWN_ERROR\<rparr>
                 | PGRES_EMPTY_QUERY \<Rightarrow> this\<lparr>result_m := SQL_IMPROPER\<rparr>
                 | PGRES_FATAL_ERROR \<Rightarrow>
                     (if \<not> connection_ok then this\<lparr>result_m := SQL_SERVER_LOST\<rparr>
                      else this\<lparr>result_m := SQL_UNKNOWN_ERROR\<rparr>)
                 | PGRES_TUPLES_OK \<Rightarrow> this\<lparr>result_m := SQL_UNKNOWN_ERROR\<rparr>
                 | PGRES_other \<Rightarrow> this\<lparr>result_m := SQL_UNKNOWN_ERROR\<rparr>))"

text \<open>The result codes of SQLite that the constructor of \<^verbatim>\<open>sqlitexx::statement\<close> tells apart.\<close>

datatype sqlite_code =
  SQLITE_OK | SQLITE_DONE | SQLITE_NOMEM | SQLITE_EMPTY | SQLITE_ROW | SQLITE_other

text \<open>
  What the native calls return: \<open>sqlite3_stmt\<close> is the handle that
  \<^verbatim>\<open>sqlite3_prepare_v2\<close> left (\<open>None\<close> for null, otherwise what \<^verbatim>\<open>sqlite3_step\<close> on it
  returns), \<open>sqlite3_errcode\<close> the error code of the connection.
\<close>

record sqlite_db =
  sqlite3_stmt :: "sqlite_code option"
  sqlite3_errcode :: sqlite_code
  sqlite3_last_insert_rowid :: "64 word"
  sqlite3_changes :: "64 word"

record sqlite_statement = statement_members +
  has_stmt_m :: bool

text \<open>
  \<^verbatim>\<open>sqlitexx::statement::statement(sqlite3*, sqlite3_stmt*)\<close>; here too \<^verbatim>\<open>result_\<close>
  is assigned in every case.
\<close>

definition sqlite_statement_ctor :: "sqlite_db \<Rightarrow> sqlite_statement" where
  "sqlite_statement_ctor db =
     (let this = \<lparr>result_m = SQL_OK, last_id_m = 0, affected_rows_m = 0,
                  has_stmt_m = (sqlite3_stmt db \<noteq> None)\<rparr>;
          result = (case sqlite3_stmt db of None \<Rightarrow> sqlite3_errcode db | Some step \<Rightarrow> step);
          ok = this\<lparr>result_m := SQL_OK,
                    last_id_m := sqlite3_last_insert_rowid db,
                    affected_rows_m := sqlite3_changes db\<rparr>
      in case result of
           SQLITE_OK \<Rightarrow> ok
         | SQLITE_DONE \<Rightarrow> ok
         | SQLITE_NOMEM \<Rightarrow> this\<lparr>result_m := SQL_NO_MEMORY\<rparr>
         | SQLITE_EMPTY \<Rightarrow> this\<lparr>result_m := SQL_IMPROPER\<rparr>
         | SQLITE_ROW \<Rightarrow> this\<lparr>result_m := SQL_UNKNOWN_ERROR\<rparr>
         | SQLITE_other \<Rightarrow> this\<lparr>result_m := SQL_UNKNOWN_ERROR\<rparr>)"

section \<open>Execution in the SQLite driver\<close>

text \<open>
  The native calls of \<^verbatim>\<open>sqlitexx::query\<close> and \<^verbatim>\<open>sqlitexx::statement\<close> are parameters.
  They work on the state \<open>'d\<close> of the connection, which holds the one statement handle of
  an execution: \<open>api_prepare_v2\<close> returns the result code and whether it left a handle
  (\<^verbatim>\<open>stmt\<close> is not null); \<open>api_bind\<close> stands for the five \<^verbatim>\<open>sqlite3_bind_*\<close> calls,
  which differ in the type of the value only. \<open>SQLITE_other\<close> is every result code the
  source does not name, \<^verbatim>\<open>SQLITE_RANGE\<close> and \<^verbatim>\<open>SQLITE_ERROR\<close> among them.
\<close>

record ('d, 'f) sqlite_api =
  api_exec :: "'d \<Rightarrow> string \<Rightarrow> sqlite_code \<times> 'd"
  api_prepare_v2 :: "'d \<Rightarrow> string option \<Rightarrow> sqlite_code \<times> bool \<times> 'd"
  api_bind_parameter_index :: "'d \<Rightarrow> string \<Rightarrow> nat"
  api_bind :: "'d \<Rightarrow> nat \<Rightarrow> 'f field_type \<Rightarrow> sqlite_code \<times> 'd"
  api_step :: "'d \<Rightarrow> sqlite_code \<times> 'd"
  api_errcode :: "'d \<Rightarrow> sqlite_code"
  api_last_insert_rowid :: "'d \<Rightarrow> 64 word"
  api_changes :: "'d \<Rightarrow> 64 word"

text \<open>
  The command of \<^verbatim>\<open>sqlitexx::transaction\<close> with its test:
  \<^verbatim>\<open>sqlite3_exec(db_, cmd, nullptr, nullptr, nullptr) == SQLITE_OK\<close>.
\<close>

definition sqlite_native :: "('d, 'f) sqlite_api \<Rightarrow> 'd \<Rightarrow> string \<Rightarrow> bool \<times> 'd" where
  "sqlite_native api d cmd = (let (err, d') = api_exec api d cmd in (err = SQLITE_OK, d'))"

text \<open>
  \<^verbatim>\<open>sqlitexx::query::do_bind\<close>: the bindings in their order, \<^verbatim>\<open>idx\<close> counting from 1; an
  entry with a name is bound at \<^verbatim>\<open>sqlite3_bind_parameter_index(stmt, name.c_str())\<close>, one
  without at \<^verbatim>\<open>idx\<close>; an entry of type \<^verbatim>\<open>SQL_INVALID\<close> matches no branch and makes no
  call; the loop breaks at the first result that is not \<^verbatim>\<open>SQLITE_OK\<close>, and that result
  is returned.
\<close>

fun sqlite_do_bind ::
  "('d, 'f) sqlite_api \<Rightarrow> 'f field_type list \<Rightarrow> nat \<Rightarrow> 'd \<Rightarrow> sqlite_code \<times> 'd" where
  "sqlite_do_bind api [] idx d = (SQLITE_OK, d)"
| "sqlite_do_bind api (b # binds) idx d =
     (if type_m b = SQL_INVALID then sqlite_do_bind api binds (Suc idx) d
      else
        (let pos = (if name_m b = [] then idx
                    else api_bind_parameter_index api d (c_str (name_m b)));
             (err, d') = api_bind api d pos b
         in if err \<noteq> SQLITE_OK then (err, d') else sqlite_do_bind api binds (Suc idx) d'))"

text \<open>
  The construction \<^verbatim>\<open>std::make_shared<statement>(lock, stmt)\<close>: the constructor steps the
  statement when there is one and reads the error code of the connection when there is
  none, then reads the row id and the change count.
\<close>

definition sqlite_statement_new ::
  "('d, 'f) sqlite_api \<Rightarrow> bool \<Rightarrow> 'd \<Rightarrow> sqlite_statement \<times> 'd" where
  "sqlite_statement_new api stmt d =
     (let (step, d') = (if stmt then (let (result, d') = api_step api d in (Some result, d'))
                        else (None, d))
      in (sqlite_statement_ctor
            \<lparr>sqlite3_stmt = step, sqlite3_errcode = api_errcode api d',
             sqlite3_last_insert_rowid = api_last_insert_rowid api d',
             sqlite3_changes = api_changes api d'\<rparr>,
          d'))"

text \<open>
  \<^verbatim>\<open>sqlitexx::query::execute_impl\<close>:
  \<^verbatim>\<open>transaction tr(lock); int err = sqlite3_prepare_v2(lock, query, -1, &stmt, nullptr);\<close>
  \<^verbatim>\<open>err == SQLITE_OK && (err = do_bind(stmt, std::move(bind)));\<close>
  \<^verbatim>\<open>err == SQLITE_OK && tr.commit(); return { std::make_shared<statement>(lock, stmt) };\<close>
  The statement is built from \<^verbatim>\<open>stmt\<close> alone, \<^verbatim>\<open>err\<close> is not passed on; the destructor
  of \<^verbatim>\<open>tr\<close> runs after the statement is built.
\<close>

definition sqlite_execute_impl ::
  "('d, 'f) sqlite_api \<Rightarrow> string option \<Rightarrow> 'f field_type list \<Rightarrow> 'd \<Rightarrow> sqlite_statement \<times> 'd" where
  "sqlite_execute_impl api query binds d =
     (let (tr, d1) = transaction_ctor (sqlite_native api) d;
          (err, stmt, d2) = api_prepare_v2 api d1 query;
          (err, d3) = (if err = SQLITE_OK then sqlite_do_bind api binds 1 d2 else (err, d2));
          (tr, d4) = (if err = SQLITE_OK
                      then (let (ok, tr', d') = commit (sqlite_native api) tr d3 in (tr', d'))
                      else (tr, d3));
          (st, d5) = sqlite_statement_new api stmt d4
      in (st, transaction_dtor (sqlite_native api) tr d5))"

text \<open>
  A connection for concrete runs. Its state is the list of the native calls made. Every
  command succeeds; the statement prepared is an INSERT without parameters, so that every
  bind is out of range and a step inserts one row.
\<close>

definition log_sqlite :: "(string list, 'f) sqlite_api" where
  "log_sqlite =
     \<lparr>api_exec = (\<lambda>d cmd. (SQLITE_OK, d @ [cmd])),
      api_prepare_v2 = (\<lambda>d query. (SQLITE_OK, True, d @ [''prepare''])),
      api_bind_parameter_index = (\<lambda>d name. 0),
      api_bind = (\<lambda>d pos f. (SQLITE_other, d @ [''bind''])),
      api_step = (\<lambda>d. (SQLITE_DONE, d @ [''step''])),
      api_errcode = (\<lambda>d. if ''bind'' \<in> set d then SQLITE_other else SQLITE_OK),
      api_last_insert_rowid = (\<lambda>d. of_nat (count_list d ''step'')),
      api_changes = (\<lambda>d. of_nat (count_list d ''step''))\<rparr>"

section \<open>Classifying the query text\<close>

text \<open>
  The regular expressions of \<^verbatim>\<open>query_has_results\<close> use a small part of the ECMAScript
  grammar: literal characters, the negated class of one character \<^verbatim>\<open>[^c]\<close>, the star of
  such a class, the assertion \<^verbatim>\<open>\b\<close>, capturing groups, concatenation and the negative
  lookahead \<^verbatim>\<open>(?!...)\<close>.
\<close>

datatype atom = Chr char | NotChr char

datatype regex =
  Eps | Atom atom | Star atom | WordBoundary | Seq regex regex | Group regex
  | NegLookahead regex

text \<open>
  With \<^verbatim>\<open>icase\<close> a character of the text and a character of the pattern are compared
  after \<^verbatim>\<open>tolower\<close>, and \<^verbatim>\<open>\b\<close> takes letters, digits and the underscore for word
  characters (the classic locale, on bytes).
\<close>

definition tolower :: "char \<Rightarrow> char" where
  "tolower c = (let n = (of_char c :: nat) in if 65 \<le> n \<and> n \<le> 90 then char_of (n + 32) else c)"

definition is_word :: "char \<Rightarrow> bool" where
  "is_word c =
     (let n = (of_char c :: nat)
      in (48 \<le> n \<and> n \<le> 57) \<or> (65 \<le> n \<and> n \<le> 90) \<or> (97 \<le> n \<and> n \<le> 122) \<or> n = 95)"

fun atom_ok :: "atom \<Rightarrow> char \<Rightarrow> bool" where
  "atom_ok (Chr c) x = (tolower x = tolower c)"
| "atom_ok (NotChr c) x = (tolower x \<noteq> tolower c)"

text \<open>
  \<^verbatim>\<open>\b\<close> at position \<open>i\<close> of the text: exactly one of the characters before and at \<open>i\<close>
  is a word character, where the two ends of the text count as no word character.
\<close>

definition word_boundary :: "string \<Rightarrow> nat \<Rightarrow> bool" where
  "word_boundary text i =
     ((0 < i \<and> is_word (text ! (i - 1))) \<noteq> (i < length text \<and> is_word (text ! i)))"

text \<open>
  \<open>ends r text i\<close>: the positions at which a match of \<open>r\<close> that starts at position \<open>i\<close> of
  the text can end. A search only asks whether there is a match, so the order in which a
  backtracking matcher tries them is of no account.
\<close>

fun ends :: "regex \<Rightarrow> string \<Rightarrow> nat \<Rightarrow> nat list" where
  "ends Eps text i = [i]"
| "ends (Atom a) text i = (if i < length text \<and> atom_ok a (text ! i) then [Suc i] else [])"
| "ends (Star a) text i =
     map (\<lambda>k. i + k) [0..<Suc (length (takeWhile (atom_ok a) (drop i text)))]"
| "ends WordBoundary text i = (if word_boundary text i then [i] else [])"
| "ends (Seq r1 r2) text i = concat (map (ends r2 text) (ends r1 text i))"
| "ends (Group r) text i = ends r text i"
| "ends (NegLookahead r) text i = (if ends r text i = [] then [i] else [])"

text \<open>\<^verbatim>\<open>std::regex_search\<close>, as a truth value: a match may start at any position.\<close>

definition regex_search :: "string \<Rightarrow> regex \<Rightarrow> bool" where
  "regex_search text r = list_ex (\<lambda>i. ends r text i \<noteq> []) [0..<Suc (length text)]"

text \<open>The characters of a keyword, one after the other.\<close>

definition literal :: "string \<Rightarrow> regex" where
  "literal kw = foldr (\<lambda>c r. Seq (Atom (Chr c)) r) kw Eps"

text \<open>\<^verbatim>\<open>"\\b(KW)\\b"\<close>\<close>

definition keyword_regex :: "string \<Rightarrow> regex" where
  "keyword_regex kw = Seq WordBoundary (Seq (Group (literal kw)) WordBoundary)"

text \<open>\<^verbatim>\<open>"[^\\(]*\\)"\<close>, the body of the lookahead.\<close>

definition closing_first :: regex where
  "closing_first = Seq (Star (NotChr (CHR ''(''))) (Atom (Chr (CHR '')'')))"

text \<open>\<^verbatim>\<open>"\\b(SELECT)\\b(?![^\\(]*\\))"\<close>\<close>

definition select_regex :: regex where
  "select_regex =
     Seq WordBoundary (Seq (Group (literal ''SELECT'')) (Seq WordBoundary (NegLookahead closing_first)))"

definition expect_results :: "regex list" where
  "expect_results =
     [keyword_regex ''DESC'', keyword_regex ''SHOW'', keyword_regex ''EXPLAIN'',
      keyword_regex ''DESCRIBE'', select_regex]"

text \<open>\<^verbatim>\<open>bool query_has_results(char const* query)\<close>: the search runs on the C string.\<close>

definition query_has_results :: "string \<Rightarrow> bool" where
  "query_has_results query = list_ex (regex_search (c_str query)) expect_results"

text \<open>
  In the words of the specification. A keyword stands at position \<open>i\<close> when the text
  continues with its letters there, in either case, with a word boundary before and
  after. A position is taken to be inside parentheses when the next parenthesis after it
  is a closing one.
\<close>

definition keyword_at :: "string \<Rightarrow> string \<Rightarrow> nat \<Rightarrow> bool" where
  "keyword_at kw text i =
     (word_boundary text i
      \<and> i + length kw \<le> length text
      \<and> map tolower (take (length kw) (drop i text)) = map tolower kw
      \<and> word_boundary text (i + length kw))"

definition inside_parens :: "string \<Rightarrow> nat \<Rightarrow> bool" where
  "inside_parens text j = (CHR '')'' \<in> set (takeWhile (\<lambda>c. c \<noteq> CHR ''('') (drop j text)))"

text \<open>The classification as the claim words it: any of the five keywords, outside parentheses.\<close>

definition claimed_has_results :: "string \<Rightarrow> bool" where
  "claimed_has_results text =
     list_ex (\<lambda>kw. list_ex (\<lambda>i. keyword_at kw text i \<and> \<not> inside_parens text (i + length kw))
                [0..<Suc (length text)])
       [''SELECT'', ''DESC'', ''SHOW'', ''EXPLAIN'', ''DESCRIBE'']"

text \<open>
  The same with the other reading of inside parentheses: more parentheses opened than
  closed before the position.
\<close>

definition paren_depth :: "string \<Rightarrow> nat \<Rightarrow> int" where
  "paren_depth text i =
     int (count_list (take i text) (CHR ''('')) - int (count_list (take i text) (CHR '')''))"

definition claimed_has_results_nested :: "string \<Rightarrow> bool" where
  "claimed_has_results_nested text =
     list_ex (\<lambda>kw. list_ex (\<lambda>i. keyword_at kw text i \<and> paren_depth text i \<le> 0)
                [0..<Suc (length text)])
       [''SELECT'', ''DESC'', ''SHOW'', ''EXPLAIN'', ''DESCRIBE'']"

section \<open>Column-name templates\<close>

text \<open>
  \<^verbatim>\<open>std::string::find(p)\<close>: the first position at which \<open>p\<close> occurs in the string, or
  \<^verbatim>\<open>npos\<close> (\<open>None\<close>). \<^verbatim>\<open>std::string::replace(pos, len, s)\<close> for a position inside the
  string.
\<close>

fun str_find :: "string \<Rightarrow> string \<Rightarrow> nat option" where
  "str_find [] p = (if p = [] then Some 0 else None)"
| "str_find (c # cs) p =
     (if prefix p (c # cs) then Some 0 else map_option Suc (str_find cs p))"

definition str_replace :: "string \<Rightarrow> nat \<Rightarrow> nat \<Rightarrow> string \<Rightarrow> string" where
  "str_replace q pos len s = take pos q @ s @ drop (pos + len) q"

text \<open>
  In \<^verbatim>\<open>operator<<(format)\<close> the stream \<^verbatim>\<open>r\<close> is given the array \<^verbatim>\<open>buf\<close> as its buffer
  (\<^verbatim>\<open>pubsetbuf\<close>; the standard library the README builds with, libstdc++, then writes
  into that array), so after \<^verbatim>\<open>r << '{' << i++ << '}'\<close> the zero-initialised
  \<^verbatim>\<open>buf\<close> holds the C string \<open>{i}\<close>, and \<^verbatim>\<open>r.seekp(0)\<close> lets the next round overwrite
  it. The 15 bytes of the buffer hold every index below \<open>10^13\<close>.
\<close>

definition placeholder :: "nat \<Rightarrow> string" where
  "placeholder i = CHR ''{'' # show_nat 10 i @ [CHR ''}'']"

text \<open>
  The inner loop
  \<^verbatim>\<open>while ((pos = q.find(buf)) != q.npos) q.replace(pos, strlen(buf), s);\<close>
  It need not end; \<open>None\<close> is the run that does not.
\<close>

partial_function (option) replace_loop :: "string \<Rightarrow> string \<Rightarrow> string \<Rightarrow> string option" where
  "replace_loop q buf s =
     (case str_find q (c_str buf) of
        None \<Rightarrow> Some q
      | Some pos \<Rightarrow> replace_loop (str_replace q pos (strlen buf) s) buf s)"

declare replace_loop.simps [code]

text \<open>The outer loop \<^verbatim>\<open>for (auto const& s : str)\<close> with its counter \<^verbatim>\<open>i\<close>.\<close>

fun format_loop :: "string list \<Rightarrow> nat \<Rightarrow> string \<Rightarrow> string option" where
  "format_loop [] i q = Some q"
| "format_loop (s # str) i q =
     (case replace_loop q (placeholder i) s of
        None \<Rightarrow> None
      | Some q' \<Rightarrow> format_loop str (Suc i) q')"

text \<open>
  \<^verbatim>\<open>query& operator<<(format str)\<close>: the text is taken out of the stream, rewritten and
  written back.
\<close>

definition append_format :: "string list \<Rightarrow> 'f query \<Rightarrow> 'f query option" where
  "append_format str qu =
     (case format_loop str 0 (query_m qu) of
        None \<Rightarrow> None
      | Some q \<Rightarrow> Some (qu\<lparr>query_m := q\<rparr>))"

text \<open>
  Literal substring replacement in the words of the specification: the text is read from
  left to right, every occurrence of \<open>p\<close> met is replaced by \<open>s\<close>, and reading goes on
  after the occurrence.
\<close>

function replace_all :: "string \<Rightarrow> string \<Rightarrow> string \<Rightarrow> string" where
  "replace_all p s q =
     (case q of
        [] \<Rightarrow> []
      | c # cs \<Rightarrow>
          if p \<noteq> [] \<and> prefix p q then s @ replace_all p s (drop (length p) q)
          else c # replace_all p s cs)"
  by pat_completeness auto
termination
  by (relation "measure (\<lambda>(p, s, q). length q)") auto

declare replace_all.simps [simp del]

text \<open>
  The names the replacement is meant for, column and table identifiers: not empty, with
  no opening brace, and not beginning with a digit or a closing brace.
\<close>

definition is_digit :: "char \<Rightarrow> bool" where
  "is_digit c = (48 \<le> (of_char c :: nat) \<and> (of_char c :: nat) \<le> 57)"

definition identifier_like :: "string \<Rightarrow> bool" where
  "identifier_like s =
     (s \<noteq> [] \<and> CHR ''{'' \<notin> set s \<and> \<not> is_digit (hd s) \<and> hd s \<noteq> CHR ''}'')"

section \<open>Escaping of raw text\<close>

lemma c_str_Nil: "c_str [] = []"
  by (simp add: c_str_def)

lemma c_str_Cons: "c_str (c # cs) = (if c = NUL then [] else c # c_str cs)"
  by (simp add: c_str_def)

lemma NUL_notin_c_str: "NUL \<notin> set (c_str bs)"
  by (induction bs) (simp_all add: c_str_Nil c_str_Cons)

lemma c_str_no_NUL: "NUL \<notin> set bs \<Longrightarrow> c_str bs = bs"
  by (induction bs) (auto simp: c_str_Nil c_str_Cons)

lemma escaped_Nil: "escaped [] = []"
  by (simp add: escaped_def)

lemma escaped_Cons: "escaped (c # cs) = escape_char c @ escaped cs"
  by (simp add: escaped_def)

lemma escaped_unchanged:
  "squote \<notin> set s \<Longrightarrow> bslash \<notin> set s \<Longrightarrow> escaped s = s"
  by (induction s) (auto simp: escaped_Nil escaped_Cons escape_char_def)

lemma escape_loop_escaped: "escape_loop bs out = out @ escaped (c_str bs)"
proof (induction bs arbitrary: out)
  case Nil
  show ?case by (simp add: c_str_Nil escaped_Nil)
next
  case (Cons c cs)
  show ?case
  proof (cases "c = NUL")
    case True
    then show ?thesis by (simp add: c_str_Cons escaped_Nil)
  next
    case False
    have "squote \<noteq> bslash" by (simp add: squote_def bslash_def)
    with False show ?thesis
      by (auto simp: Cons.IH c_str_Cons escaped_Cons escape_char_def Let_def)
  qed
qed

lemma strpbrk_None: "strpbrk bs acc = None \<longleftrightarrow> set (c_str bs) \<inter> set (c_str acc) = {}"
  by (induction bs) (auto simp: c_str_Nil c_str_Cons)

lemma c_str_accept: "c_str [squote, bslash] = [squote, bslash]"
  by (simp add: c_str_def squote_def bslash_def NUL_def)

lemma deref_NUL: "deref bs = NUL \<longleftrightarrow> c_str bs = []"
  by (cases bs) (simp_all add: deref_def c_str_Nil c_str_Cons)

lemma append_text_Some: "query_m (append_text (Some bs) q) = query_m q @ escaped (c_str bs)"
proof (cases "deref bs = NUL")
  case True
  then show ?thesis by (simp add: append_text_def deref_NUL escaped_Nil)
next
  case False
  show ?thesis
  proof (cases "strpbrk bs [squote, bslash] = None")
    case True
    then have "squote \<notin> set (c_str bs)" "bslash \<notin> set (c_str bs)"
      by (auto simp: strpbrk_None c_str_accept)
    then have "escaped (c_str bs) = c_str bs" by (rule escaped_unchanged)
    with True False show ?thesis by (simp add: append_text_def)
  next
    case no: False
    with False show ?thesis by (auto simp: append_text_def escape_loop_escaped)
  qed
qed

lemma append_text_bind: "bind_m (append_text t q) = bind_m q"
  by (simp add: append_text_def split: option.splits)

text \<open>
  C1. Appending a C string as raw text with \<^verbatim>\<open>operator<<(char const*)\<close> appends the
  text with each single quote and each backslash doubled and every other character as it
  is (a null pointer appends nothing); the binding list is untouched; a text with neither
  character is appended unchanged; and the literal text O'Brien\x is appended as
  O''Brien\\x.
\<close>

theorem append_text_escapes:
  "query_m (append_text (Some bs) (q :: 'f query)) = query_m q @ escaped (c_str bs)
   \<and> escaped (c_str bs) = concat (map (\<lambda>c. if c = squote \<or> c = bslash then [c, c] else [c]) (c_str bs))
   \<and> append_text None q = q
   \<and> bind_m (append_text t q) = bind_m q
   \<and> (squote \<notin> set (c_str bs) \<and> bslash \<notin> set (c_str bs)
        \<longrightarrow> query_m (append_text (Some bs) q) = query_m q @ c_str bs)
   \<and> query_m (append_text (Some (''O'' @ [squote] @ ''Brien'' @ [bslash] @ ''x'')) q)
        = query_m q @ ''O'' @ [squote, squote] @ ''Brien'' @ [bslash, bslash] @ ''x''"
proof -
  have ex: "escaped (c_str (''O'' @ [squote] @ ''Brien'' @ [bslash] @ ''x''))
      = ''O'' @ [squote, squote] @ ''Brien'' @ [bslash, bslash] @ ''x''"
    by (simp add: escaped_Cons escaped_Nil escape_char_def c_str_def squote_def bslash_def NUL_def)
  have un: "squote \<notin> set (c_str bs) \<and> bslash \<notin> set (c_str bs)
      \<longrightarrow> query_m (append_text (Some bs) q) = query_m q @ c_str bs"
    by (simp add: append_text_Some escaped_unchanged)
  have sp: "escaped (c_str bs)
      = concat (map (\<lambda>c. if c = squote \<or> c = bslash then [c, c] else [c]) (c_str bs))"
    by (simp add: escaped_def escape_char_def [abs_def])
  have nl: "append_text None q = q" by (simp add: append_text_def)
  from ex un sp nl show ?thesis
    by (simp only: append_text_Some append_text_bind simp_thms)
qed

theorem append_text_escapes_witness:
  "squote \<notin> set (c_str ''SELECT 1'') \<and> bslash \<notin> set (c_str ''SELECT 1'')
   \<and> query_m (append_text (Some ''SELECT 1'') (query_default :: nat query)) = ''SELECT 1''"
proof -
  have a: "squote \<notin> set (c_str ''SELECT 1'') \<and> bslash \<notin> set (c_str ''SELECT 1'')"
    by (simp add: c_str_def squote_def bslash_def NUL_def)
  have c: "c_str ''SELECT 1'' = ''SELECT 1''"
    by (simp add: c_str_def NUL_def)
  have e: "query_m (query_default :: nat query) = []"
    by (simp add: query_default_def)
  from append_text_escapes [of "''SELECT 1''" "query_default :: nat query" None]
  have "squote \<notin> set (c_str ''SELECT 1'') \<and> bslash \<notin> set (c_str ''SELECT 1'')
      \<longrightarrow> query_m (append_text (Some ''SELECT 1'') (query_default :: nat query))
          = query_m (query_default :: nat query) @ c_str ''SELECT 1''"
    by (elim conjE)
  with a have "query_m (append_text (Some ''SELECT 1'') (query_default :: nat query))
      = query_m (query_default :: nat query) @ c_str ''SELECT 1''"
    by blast
  with a show ?thesis by (simp only: c e append_Nil simp_thms)
qed

section \<open>The constructor from a string\<close>

lemma query_ctor_text: "query_m (query_ctor s :: 'f query) = escaped (c_str s)"
  by (simp add: query_ctor_def append_text_Some query_default_def)

text \<open>
  C10 (amended). Constructing a query from a \<^verbatim>\<open>std::string\<close> \<open>s\<close> is default
  construction followed by the raw-text append of \<^verbatim>\<open>s.c_str()\<close>: the query text is the
  escaped form of the C string of \<open>s\<close>, that is of \<open>s\<close> up to its first NUL byte, and the
  binding list is empty. For a string without a NUL byte this is the escaped form of
  \<open>s\<close> itself, every quote and backslash of \<open>s\<close> doubled.
\<close>

theorem query_ctor_escapes:
  "query_m (query_ctor s :: 'f query) = escaped (c_str s)
   \<and> bind_m (query_ctor s :: 'f query) = []
   \<and> (query_ctor s :: 'f query) = append_text (Some s) query_default
   \<and> (NUL \<notin> set s \<longrightarrow> query_m (query_ctor s :: 'f query) = escaped s)"
  by (simp add: query_ctor_text c_str_no_NUL)
    (simp add: query_ctor_def append_text_bind query_default_def)

theorem query_ctor_escapes_witness:
  "NUL \<notin> set ''it's''
   \<and> query_m (query_ctor ''it's'' :: nat query) = ''it'' @ [squote, squote] @ ''s''"
proof -
  have n: "NUL \<notin> set ''it's''" by (simp add: NUL_def)
  have e: "escaped ''it's'' = ''it'' @ [squote, squote] @ ''s''"
    by (simp add: escaped_Cons escaped_Nil escape_char_def squote_def bslash_def)
  from query_ctor_escapes [of "''it's''", where 'f = nat]
  have "NUL \<notin> set ''it's'' \<longrightarrow> query_m (query_ctor ''it's'' :: nat query) = escaped ''it's''"
    by (elim conjE)
  with n have "query_m (query_ctor ''it's'' :: nat query) = escaped ''it's''" by blast
  with n e show ?thesis by simp
qed

text \<open>
  The claim as it stands, for every string, fails on a string with a NUL byte before a
  quote: the bytes a, NUL, quote give the query text a, and the quote is not doubled but
  lost.
\<close>

theorem query_ctor_counterexample:
  "\<not> (\<forall>s. query_m (query_ctor s :: nat query) = escaped s)"
proof
  assume "\<forall>s. query_m (query_ctor s :: nat query) = escaped s"
  then have "query_m (query_ctor [CHR ''a'', NUL, squote] :: nat query)
      = escaped [CHR ''a'', NUL, squote]"
    by blast
  then show False
    by (simp add: query_ctor_text c_str_Cons c_str_Nil escaped_Cons escaped_Nil
        escape_char_def NUL_def squote_def bslash_def)
qed

section \<open>Executing a query\<close>

lemma set_escaped: "set (escaped s) = set s"
  by (induction s) (auto simp: escaped_Nil escaped_Cons escape_char_def)

lemma append_text_NUL_free:
  "NUL \<notin> set (query_m q) \<Longrightarrow> NUL \<notin> set (query_m (append_text t q))"
  by (cases t) (simp_all add: append_text_def [of None] append_text_Some set_escaped NUL_notin_c_str)


section \<open>Row lookup\<close>

lemma row_named_None: "row_named r None = invalid_field"
  by (induction r) simp_all

lemma row_named_find:
  "row_named r (Some n) =
     (case find (\<lambda>f. name_m f = c_str n) r of Some f \<Rightarrow> f | None \<Rightarrow> invalid_field)"
  by (induction r) simp_all

lemma find_first_index:
  "idx < length r \<Longrightarrow> P (r ! idx) \<Longrightarrow> (\<forall>j<idx. \<not> P (r ! j)) \<Longrightarrow> find P r = Some (r ! idx)"
  by (auto simp: find_Some_iff)

text \<open>
  C7. For every row \<open>r\<close>, \<open>r[idx]\<close> is the field at position \<open>idx\<close> when \<open>idx\<close> is less
  than the size of the row and the invalid sentinel otherwise; \<open>r[name]\<close> is the first
  field whose name equals the C string \<open>name\<close> and the same sentinel when there is none
  (or when \<open>name\<close> is the null pointer); so \<open>r[name]\<close> and \<open>r[idx]\<close> agree whenever \<open>idx\<close>
  is the position of the first field named \<open>name\<close>.
\<close>

theorem row_lookup:
  "(idx < length r \<longrightarrow> row_at r idx = r ! idx)
   \<and> (\<not> idx < length r \<longrightarrow> row_at r idx = invalid_field)
   \<and> row_named r (Some n)
        = (case find (\<lambda>f. name_m f = c_str n) r of Some f \<Rightarrow> f | None \<Rightarrow> invalid_field)
   \<and> row_named r None = invalid_field
   \<and> (idx < length r \<and> name_m (r ! idx) = c_str n \<and> (\<forall>j<idx. name_m (r ! j) \<noteq> c_str n)
        \<longrightarrow> row_named r (Some n) = row_at r idx)"
proof -
  have "idx < length r \<and> name_m (r ! idx) = c_str n \<and> (\<forall>j<idx. name_m (r ! j) \<noteq> c_str n)
      \<longrightarrow> row_named r (Some n) = row_at r idx"
  proof (intro impI, elim conjE)
    assume a: "idx < length r" "name_m (r ! idx) = c_str n"
      "\<forall>j<idx. name_m (r ! j) \<noteq> c_str n"
    then have "find (\<lambda>f. name_m f = c_str n) r = Some (r ! idx)"
      by (intro find_first_index) auto
    with a show "row_named r (Some n) = row_at r idx"
      by (simp add: row_named_find row_at_def)
  qed
  then show ?thesis
    by (simp add: row_at_def row_named_None row_named_find [symmetric])
qed

theorem row_lookup_witness:
  "(1::nat) < length demo_row \<and> \<not> (3::nat) < length demo_row
   \<and> row_at demo_row 3 = invalid_field
   \<and> row_named demo_row (Some ''b'') = field_text ''y'' ''b''
   \<and> row_named demo_row (Some ''b'') = row_at demo_row 1
   \<and> row_named demo_row (Some ''c'') = invalid_field"
proof -
  have l: "(1::nat) < length demo_row" "\<not> (3::nat) < length demo_row"
    by (simp_all add: demo_row_def)
  have n: "name_m (demo_row ! 1) = c_str ''b''"
    by (simp add: demo_row_def field_text_def field_default_def c_str_def NUL_def)
  have f: "\<forall>j<1. name_m (demo_row ! j) \<noteq> c_str ''b''"
    by (simp add: demo_row_def field_text_def field_default_def c_str_def NUL_def)
  from row_lookup [of 1 demo_row "''b''"]
  have "1 < length demo_row \<and> name_m (demo_row ! 1) = c_str ''b''
        \<and> (\<forall>j<1. name_m (demo_row ! j) \<noteq> c_str ''b'')
      \<longrightarrow> row_named demo_row (Some ''b'') = row_at demo_row 1"
    by (elim conjE)
  with l n f have a: "row_named demo_row (Some ''b'') = row_at demo_row 1" by blast
  have b: "row_at demo_row 1 = field_text ''y'' ''b''"
    by (simp add: row_at_def demo_row_def)
  from row_lookup [of 3 demo_row "''c''"] l have c: "row_at demo_row 3 = invalid_field"
    by blast
  have d: "row_named demo_row (Some ''c'') = invalid_field"
    by (simp add: demo_row_def field_text_def field_default_def c_str_def NUL_def)
  from l a b c d show ?thesis by simp
qed

section \<open>A cursor on an empty result set\<close>

lemma cursor_end_row: "row_m (fst (cursor_end st s)) = []"
  by (simp add: cursor_end_def iterator_ctor_def iterator_next_def)

lemma cursor_begin_row:
  "row_m (fst (cursor_begin st s)) = fst (stmt_next st (stmt_first st s))"
  by (simp add: cursor_begin_def iterator_ctor_def iterator_next_def split: prod.splits)

lemma row_eq_Nil: "row_eq close r [] \<longleftrightarrow> r = []"
  by (auto simp: row_eq_def)

lemma cursor_begin_eq:
  "cursor_begin st s =
     (\<lparr>row_m = fst (stmt_next st (stmt_first st s)), stmt_m = True\<rparr>,
      snd (stmt_next st (stmt_first st s)))"
  by (simp add: cursor_begin_def iterator_ctor_def iterator_next_def split: prod.splits)

lemma cursor_end_eq: "cursor_end st s' = (\<lparr>row_m = [], stmt_m = False\<rparr>, s')"
  by (simp add: cursor_end_def iterator_ctor_def iterator_next_def)

text \<open>
  C8. \<open>begin()\<close> calls \<open>first()\<close> on the statement and builds an iterator that refers to
  the statement and at once pulls a row from it, so that it holds the first row after
  the rewind and the statement is left one row further; \<open>end()\<close> builds an iterator that
  refers to no statement, keeps its empty row and leaves the statement as it is; iterators
  are compared by their rows. So for every cursor whose statement yields no rows, that is
  whose first \<open>next()\<close> after \<open>first()\<close> returns the empty row, \<open>begin()\<close> equals
  \<open>end()\<close>, and for every other cursor it does not.
\<close>

theorem cursor_empty_begin_is_end:
  "cursor_begin st s =
     (\<lparr>row_m = fst (stmt_next st (stmt_first st s)), stmt_m = True\<rparr>,
      snd (stmt_next st (stmt_first st s)))
   \<and> cursor_end st s' = (\<lparr>row_m = [], stmt_m = False\<rparr>, s')
   \<and> (fst (stmt_next st (stmt_first st s)) = []
        \<longrightarrow> iterator_eq close (fst (cursor_begin st s)) (fst (cursor_end st s')))
   \<and> (fst (stmt_next st (stmt_first st s)) \<noteq> []
        \<longrightarrow> \<not> iterator_eq close (fst (cursor_begin st s)) (fst (cursor_end st s')))"
  by (simp add: cursor_begin_eq cursor_end_eq iterator_eq_def row_eq_Nil)

text \<open>
  A statement without rows, and a statement with one row all of whose rows were pulled
  before: \<open>begin()\<close> rewinds it and holds that row.
\<close>

theorem cursor_empty_begin_is_end_witness:
  "fst (stmt_next (list_statement []) (stmt_first (list_statement []) [])) = ([] :: nat row)
   \<and> iterator_eq (=) (fst (cursor_begin (list_statement ([] :: nat row list)) []))
        (fst (cursor_end (list_statement []) []))
   \<and> fst (stmt_next (list_statement [demo_row]) (stmt_first (list_statement [demo_row]) []))
       \<noteq> []
   \<and> \<not> iterator_eq (=) (fst (cursor_begin (list_statement [demo_row]) []))
        (fst (cursor_end (list_statement [demo_row]) []))
   \<and> cursor_begin (list_statement [demo_row]) [] = (\<lparr>row_m = demo_row, stmt_m = True\<rparr>, [])"
proof -
  have h: "fst (stmt_next (list_statement []) (stmt_first (list_statement []) []))
      = ([] :: nat row)"
    by (simp add: list_statement_def)
  have g: "fst (stmt_next (list_statement [demo_row]) (stmt_first (list_statement [demo_row]) []))
      \<noteq> []"
    by (simp add: list_statement_def demo_row_def)
  have e: "stmt_next (list_statement [demo_row]) (stmt_first (list_statement [demo_row]) [])
      = (demo_row, [])"
    by (simp add: list_statement_def)
  note a = cursor_empty_begin_is_end [of "list_statement ([] :: nat row list)" "[]" "[]" "(=)"]
  note b = cursor_empty_begin_is_end [of "list_statement [demo_row]" "[]" "[]" "(=)"]
  from a h have 1: "iterator_eq (=) (fst (cursor_begin (list_statement ([] :: nat row list)) []))
        (fst (cursor_end (list_statement []) []))" by blast
  from b g have 2: "\<not> iterator_eq (=) (fst (cursor_begin (list_statement [demo_row]) []))
        (fst (cursor_end (list_statement [demo_row]) []))" by blast
  from b have 3: "cursor_begin (list_statement [demo_row]) [] = (\<lparr>row_m = demo_row, stmt_m = True\<rparr>, [])"
    unfolding e by simp
  from h g 1 2 3 show ?thesis by blast
qed

section \<open>The text of a field\<close>

lemma toString_null: "type_m f = SQL_NULL \<Longrightarrow> toString sd f = ''NULL''"
  by (simp add: toString_def)

lemma toString_field_null: "toString sd (field_null n) = ''NULL''"
  by (simp add: toString_def field_null_def)

lemma toString_blob_two_digits: "16 \<le> (of_char v :: nat) \<Longrightarrow> length (show_nat 16 (of_char v mod 256)) = 2"
proof -
  assume a: "16 \<le> (of_char v :: nat)"
  have b: "(of_char v :: nat) < 256" by simp
  from b have c: "(of_char v :: nat) div 16 < 16" by arith
  from a show ?thesis
    by (subst show_nat.simps, subst show_nat.simps) (simp add: c)
qed

text \<open>
  C9. \<open>toString()\<close> is a function of the field, and a NULL field gives the text NULL
  (\<open>toString_null\<close>). For a blob the source prints each byte as a hexadecimal number
  without padding (\<^verbatim>\<open>std::setfill('0')\<close> is set, \<^verbatim>\<open>std::setw(2)\<close> is not): a byte
  from 16 on gives two digits, but a byte below 16 gives one digit, not two. The one byte
  0A gives \<^verbatim>\<open>\xa\<close>, and the two bytes 01 02 give \<^verbatim>\<open>\x12\<close>, which is also what the
  one byte 12 gives, so the text is not the hexadecimal encoding of the bytes.
\<close>

theorem toString_blob_small_bytes:
  "toString sd (field_blob [CHR 0x0A] n :: nat field_type) = [bslash, CHR ''x'', CHR ''a'']
   \<and> toString sd (field_blob [CHR 0x01, CHR 0x02] n :: nat field_type)
       = [bslash, CHR ''x'', CHR ''1'', CHR ''2'']
   \<and> toString sd (field_blob [CHR 0x12] n :: nat field_type)
       = [bslash, CHR ''x'', CHR ''1'', CHR ''2'']"
  by code_simp

section \<open>The transaction's states\<close>

lemma commit_finished: "finished_m t \<Longrightarrow> commit native t d = (True, t, d)"
  by (simp add: commit_def)

lemma rollback_finished: "finished_m t \<Longrightarrow> rollback native t d = (True, t, d)"
  by (simp add: rollback_def)

lemma commit_unfinished:
  "\<not> finished_m t \<Longrightarrow>
   commit native t d
     = (fst (native d ''COMMIT;''), \<lparr>finished_m = fst (native d ''COMMIT;'')\<rparr>,
        snd (native d ''COMMIT;''))"
  by (simp add: commit_def split: prod.splits)

lemma rollback_unfinished:
  "\<not> finished_m t \<Longrightarrow>
   rollback native t d
     = (fst (native d ''ROLLBACK;''), \<lparr>finished_m = fst (native d ''ROLLBACK;'')\<rparr>,
        snd (native d ''ROLLBACK;''))"
  by (simp add: rollback_def split: prod.splits)

lemma transaction_ctor_eq:
  "transaction_ctor native d
     = (\<lparr>finished_m = \<not> fst (native d ''BEGIN;'')\<rparr>, snd (native d ''BEGIN;''))"
  by (simp add: transaction_ctor_def tr_begin_def split: prod.splits)

lemma commit_returns_finished:
  "fst (commit native t d) = finished_m (fst (snd (commit native t d)))"
  by (simp add: commit_def split: prod.splits)

text \<open>
  C4 (amended). Construction sends BEGIN and marks the transaction finished exactly when
  BEGIN fails. On a finished transaction \<open>commit()\<close> and \<open>rollback()\<close> send nothing and
  return true, and destruction sends nothing. On an unfinished one \<open>commit()\<close> sends
  COMMIT and \<open>rollback()\<close> sends ROLLBACK, each marks the transaction finished exactly
  when its command succeeds and returns that flag, and destruction is \<open>rollback()\<close>. After
  a \<open>commit()\<close> that returned true, committing again or rolling back sends nothing and
  returns true.
\<close>

theorem transaction_state_machine:
  "transaction_ctor native d
     = (\<lparr>finished_m = \<not> fst (native d ''BEGIN;'')\<rparr>, snd (native d ''BEGIN;''))
   \<and> (finished_m t \<longrightarrow>
        commit native t d = (True, t, d) \<and> rollback native t d = (True, t, d)
        \<and> transaction_dtor native t d = d)
   \<and> (\<not> finished_m t \<longrightarrow>
        commit native t d
          = (fst (native d ''COMMIT;''), \<lparr>finished_m = fst (native d ''COMMIT;'')\<rparr>,
             snd (native d ''COMMIT;''))
        \<and> rollback native t d
          = (fst (native d ''ROLLBACK;''), \<lparr>finished_m = fst (native d ''ROLLBACK;'')\<rparr>,
             snd (native d ''ROLLBACK;''))
        \<and> transaction_dtor native t d = snd (native d ''ROLLBACK;''))
   \<and> (fst (commit native t d) \<longrightarrow>
        commit native (fst (snd (commit native t d))) d'
          = (True, fst (snd (commit native t d)), d')
        \<and> rollback native (fst (snd (commit native t d))) d'
          = (True, fst (snd (commit native t d)), d'))"
proof -
  have 1: "finished_m t \<longrightarrow>
        commit native t d = (True, t, d) \<and> rollback native t d = (True, t, d)
        \<and> transaction_dtor native t d = d"
    by (simp add: commit_finished rollback_finished transaction_dtor_def)
  have 2: "\<not> finished_m t \<longrightarrow>
        commit native t d
          = (fst (native d ''COMMIT;''), \<lparr>finished_m = fst (native d ''COMMIT;'')\<rparr>,
             snd (native d ''COMMIT;''))
        \<and> rollback native t d
          = (fst (native d ''ROLLBACK;''), \<lparr>finished_m = fst (native d ''ROLLBACK;'')\<rparr>,
             snd (native d ''ROLLBACK;''))
        \<and> transaction_dtor native t d = snd (native d ''ROLLBACK;'')"
    by (simp add: commit_unfinished rollback_unfinished transaction_dtor_def)
  have 3: "fst (commit native t d) \<longrightarrow>
        commit native (fst (snd (commit native t d))) d'
          = (True, fst (snd (commit native t d)), d')
        \<and> rollback native (fst (snd (commit native t d))) d'
          = (True, fst (snd (commit native t d)), d')"
    by (simp add: commit_returns_finished commit_finished rollback_finished)
  from 1 2 3 show ?thesis by (simp only: transaction_ctor_eq simp_thms)
qed

text \<open>
  Two runs on a connection that logs its commands. When BEGIN fails the transaction is
  finished and \<open>commit()\<close> sends nothing. When all commands succeed, \<open>commit()\<close> sends
  COMMIT, and the \<open>rollback()\<close> of the destructor sends nothing after it.
\<close>

theorem transaction_state_machine_witness:
  "finished_m (fst (transaction_ctor (log_native [''BEGIN;'']) []))
   \<and> commit (log_native [''BEGIN;'']) (fst (transaction_ctor (log_native [''BEGIN;'']) []))
        [''BEGIN;'']
       = (True, \<lparr>finished_m = True\<rparr>, [''BEGIN;''])
   \<and> \<not> finished_m (fst (transaction_ctor (log_native []) []))
   \<and> fst (commit (log_native []) (fst (transaction_ctor (log_native []) [])) [''BEGIN;''])
   \<and> snd (snd (commit (log_native []) (fst (transaction_ctor (log_native []) []))
        [''BEGIN;''])) = [''BEGIN;'', ''COMMIT;'']
   \<and> rollback (log_native [])
        (fst (snd (commit (log_native []) (fst (transaction_ctor (log_native []) []))
          [''BEGIN;''])))
        [''BEGIN;'', ''COMMIT;'']
       = (True, \<lparr>finished_m = True\<rparr>, [''BEGIN;'', ''COMMIT;''])"
proof -
  let ?t1 = "fst (transaction_ctor (log_native [''BEGIN;'']) ([] :: string list))"
  let ?t2 = "fst (transaction_ctor (log_native []) ([] :: string list))"
  have f1: "finished_m ?t1"
    by (simp add: transaction_ctor_eq log_native_def)
  have t1: "?t1 = \<lparr>finished_m = True\<rparr>"
    by (simp add: transaction_ctor_eq log_native_def)
  have f2: "\<not> finished_m ?t2"
    by (simp add: transaction_ctor_eq log_native_def)
  have c2: "fst (commit (log_native []) ?t2 [''BEGIN;''])"
    by (simp add: commit_def transaction_ctor_eq log_native_def)
  have t2: "fst (snd (commit (log_native []) ?t2 [''BEGIN;''])) = \<lparr>finished_m = True\<rparr>"
    by (simp add: commit_def transaction_ctor_eq log_native_def)
  from transaction_state_machine [of "log_native [''BEGIN;'']" "[''BEGIN;'']" ?t1] f1
  have a: "commit (log_native [''BEGIN;'']) ?t1 [''BEGIN;''] = (True, ?t1, [''BEGIN;''])"
    by blast
  from transaction_state_machine [of "log_native []" "[''BEGIN;'']" ?t2] f2
  have b: "commit (log_native []) ?t2 [''BEGIN;'']
      = (fst (log_native [] [''BEGIN;''] ''COMMIT;''),
         \<lparr>finished_m = fst (log_native [] [''BEGIN;''] ''COMMIT;'')\<rparr>,
         snd (log_native [] [''BEGIN;''] ''COMMIT;''))"
    by blast
  from transaction_state_machine
    [of "log_native []" "[''BEGIN;'']" ?t2 "[''BEGIN;'', ''COMMIT;'']"] c2
  have c: "rollback (log_native []) (fst (snd (commit (log_native []) ?t2 [''BEGIN;''])))
        [''BEGIN;'', ''COMMIT;'']
      = (True, fst (snd (commit (log_native []) ?t2 [''BEGIN;''])), [''BEGIN;'', ''COMMIT;''])"
    by blast
  have b': "snd (snd (commit (log_native []) ?t2 [''BEGIN;''])) = [''BEGIN;'', ''COMMIT;'']"
    unfolding b by (simp add: log_native_def)
  from f1 f2 c2 a b' c show ?thesis
    by (simp only: t1 t2 simp_thms)
qed

text \<open>
  The claim as it stands says that \<open>commit()\<close> marks the transaction finished and that a
  second \<open>commit()\<close> is a no-op. When COMMIT fails, \<open>commit()\<close> returns false and leaves the
  transaction unfinished, and a second \<open>commit()\<close> sends COMMIT again.
\<close>

theorem transaction_commit_counterexample:
  "(let native = log_native [''COMMIT;''];
        (t0, d0) = transaction_ctor native [];
        (r1, t1, d1) = commit native t0 d0;
        (r2, t2, d2) = commit native t1 d1
    in \<not> r1 \<and> \<not> finished_m t1 \<and> d1 = [''BEGIN;'', ''COMMIT;''] \<and> \<not> r2
       \<and> d2 = [''BEGIN;'', ''COMMIT;'', ''COMMIT;''])"
  by (simp add: commit_def transaction_ctor_def tr_begin_def log_native_def)

section \<open>The outcome of a failed execution\<close>

lemma mysql_zero:
  "result_m (mysql_statement_ctor stmt) \<noteq> SQL_OK \<Longrightarrow>
   last_id_m (mysql_statement_ctor stmt) = 0 \<and> affected_rows_m (mysql_statement_ctor stmt) = 0"
  by (auto simp: mysql_statement_ctor_def Let_def
      split: mysql_errno.splits option.splits if_splits)

lemma pq_zero:
  "result_m (pq_statement_ctor c res cur) \<noteq> SQL_OK \<Longrightarrow>
   last_id_m (pq_statement_ctor c res cur) = 0
   \<and> affected_rows_m (pq_statement_ctor c res cur) = 0"
  by (auto simp: pq_statement_ctor_def Let_def
      split: pq_status.splits option.splits if_splits)

lemma sqlite_zero:
  "result_m (sqlite_statement_ctor db) \<noteq> SQL_OK \<Longrightarrow>
   last_id_m (sqlite_statement_ctor db) = 0 \<and> affected_rows_m (sqlite_statement_ctor db) = 0"
  by (auto simp: sqlite_statement_ctor_def Let_def
      split: sqlite_code.splits option.splits if_splits)

lemma mysql_result:
  "result_m (mysql_statement_ctor stmt) =
     (case mysql_stmt_errno stmt of
        CR_none \<Rightarrow> SQL_OK
      | CR_COMMANDS_OUT_OF_SYNC \<Rightarrow> SQL_IMPROPER
      | CR_OUT_OF_MEMORY \<Rightarrow> SQL_NO_MEMORY
      | CR_SERVER_GONE_ERROR \<Rightarrow> SQL_SERVER_LOST
      | CR_SERVER_LOST \<Rightarrow> SQL_SERVER_LOST
      | CR_UNKNOWN_ERROR \<Rightarrow> SQL_UNKNOWN_ERROR
      | CR_other \<Rightarrow> SQL_UNKNOWN_ERROR)"
  by (auto simp: mysql_statement_ctor_def Let_def split: mysql_errno.splits option.splits)

lemma pq_result:
  "result_m (pq_statement_ctor c res cur) =
     (case res of
        None \<Rightarrow> SQL_NO_MEMORY
      | Some r \<Rightarrow>
          (case PQresultStatus r of
             PGRES_COMMAND_OK \<Rightarrow> SQL_OK
           | PGRES_NONFATAL_ERROR \<Rightarrow> SQL_OK
           | PGRES_EMPTY_QUERY \<Rightarrow> SQL_IMPROPER
           | PGRES_FATAL_ERROR \<Rightarrow> (if c then SQL_UNKNOWN_ERROR else SQL_SERVER_LOST)
           | PGRES_BAD_RESPONSE \<Rightarrow> SQL_UNKNOWN_ERROR
           | PGRES_TUPLES_OK \<Rightarrow> SQL_UNKNOWN_ERROR
           | PGRES_other \<Rightarrow> SQL_UNKNOWN_ERROR))"
  by (auto simp: pq_statement_ctor_def Let_def split: pq_status.splits option.splits)

lemma sqlite_result:
  "result_m (sqlite_statement_ctor db) =
     (case (case sqlite3_stmt db of None \<Rightarrow> sqlite3_errcode db | Some step \<Rightarrow> step) of
        SQLITE_OK \<Rightarrow> SQL_OK
      | SQLITE_DONE \<Rightarrow> SQL_OK
      | SQLITE_NOMEM \<Rightarrow> SQL_NO_MEMORY
      | SQLITE_EMPTY \<Rightarrow> SQL_IMPROPER
      | SQLITE_ROW \<Rightarrow> SQL_UNKNOWN_ERROR
      | SQLITE_other \<Rightarrow> SQL_UNKNOWN_ERROR)"
  by (auto simp: sqlite_statement_ctor_def Let_def split: sqlite_code.splits option.splits)

text \<open>
  What the three statement constructors do with the native status they find: the outcome
  is the classification of that status, and whenever the outcome is not \<open>SQL_OK\<close> the
  last identifier and the affected-row count keep their 0.
\<close>

lemma statement_ctor_outcomes:
  "(result_m (mysql_statement_ctor stmt) \<noteq> SQL_OK \<longrightarrow>
      last_id_m (mysql_statement_ctor stmt) = 0
      \<and> affected_rows_m (mysql_statement_ctor stmt) = 0)
   \<and> (result_m (pq_statement_ctor c res cur) \<noteq> SQL_OK \<longrightarrow>
      last_id_m (pq_statement_ctor c res cur) = 0
      \<and> affected_rows_m (pq_statement_ctor c res cur) = 0)
   \<and> (result_m (sqlite_statement_ctor db) \<noteq> SQL_OK \<longrightarrow>
      last_id_m (sqlite_statement_ctor db) = 0
      \<and> affected_rows_m (sqlite_statement_ctor db) = 0)
   \<and> result_m (mysql_statement_ctor stmt) =
       (case mysql_stmt_errno stmt of
          CR_none \<Rightarrow> SQL_OK
        | CR_COMMANDS_OUT_OF_SYNC \<Rightarrow> SQL_IMPROPER
        | CR_OUT_OF_MEMORY \<Rightarrow> SQL_NO_MEMORY
        | CR_SERVER_GONE_ERROR \<Rightarrow> SQL_SERVER_LOST
        | CR_SERVER_LOST \<Rightarrow> SQL_SERVER_LOST
        | CR_UNKNOWN_ERROR \<Rightarrow> SQL_UNKNOWN_ERROR
        | CR_other \<Rightarrow> SQL_UNKNOWN_ERROR)
   \<and> result_m (pq_statement_ctor c res cur) =
       (case res of
          None \<Rightarrow> SQL_NO_MEMORY
        | Some r \<Rightarrow>
            (case PQresultStatus r of
               PGRES_COMMAND_OK \<Rightarrow> SQL_OK
             | PGRES_NONFATAL_ERROR \<Rightarrow> SQL_OK
             | PGRES_EMPTY_QUERY \<Rightarrow> SQL_IMPROPER
             | PGRES_FATAL_ERROR \<Rightarrow> (if c then SQL_UNKNOWN_ERROR else SQL_SERVER_LOST)
             | PGRES_BAD_RESPONSE \<Rightarrow> SQL_UNKNOWN_ERROR
             | PGRES_TUPLES_OK \<Rightarrow> SQL_UNKNOWN_ERROR
             | PGRES_other \<Rightarrow> SQL_UNKNOWN_ERROR))
   \<and> result_m (sqlite_statement_ctor db) =
       (case (case sqlite3_stmt db of None \<Rightarrow> sqlite3_errcode db | Some step \<Rightarrow> step) of
          SQLITE_OK \<Rightarrow> SQL_OK
        | SQLITE_DONE \<Rightarrow> SQL_OK
        | SQLITE_NOMEM \<Rightarrow> SQL_NO_MEMORY
        | SQLITE_EMPTY \<Rightarrow> SQL_IMPROPER
        | SQLITE_ROW \<Rightarrow> SQL_UNKNOWN_ERROR
        | SQLITE_other \<Rightarrow> SQL_UNKNOWN_ERROR)"
  using mysql_zero [of stmt] pq_zero [of c res cur] sqlite_zero [of db]
    mysql_result [of stmt] pq_result [of c res cur] sqlite_result [of db]
  by blast

text \<open>
  An execution in the SQLite driver whose preparation fails and leaves no statement: the
  handle is built from the error code of the connection, and nothing is committed.
\<close>

lemma sqlite_prepare_failure:
  assumes "transaction_ctor (sqlite_native api) d = (tr, d1)"
    and "api_prepare_v2 api d1 query = (err, False, d2)" and "err \<noteq> SQLITE_OK"
  shows "sqlite_execute_impl api query binds d =
     (sqlite_statement_ctor
        \<lparr>sqlite3_stmt = None, sqlite3_errcode = api_errcode api d2,
         sqlite3_last_insert_rowid = api_last_insert_rowid api d2,
         sqlite3_changes = api_changes api d2\<rparr>,
      transaction_dtor (sqlite_native api) tr d2)"
  using assms
  by (simp add: sqlite_execute_impl_def sqlite_statement_new_def)

text \<open>
  An execution in the SQLite driver whose binding fails: the result of \<open>do_bind\<close> keeps
  the commit back but does not reach the statement, whose constructor steps the prepared
  statement all the same. When that step is done, the handle reports \<open>SQL_OK\<close> with
  the row id and the change count of the step, and the destructor of the transaction
  then rolls the step back.
\<close>

lemma sqlite_bind_failure:
  assumes "transaction_ctor (sqlite_native api) d = (tr, d1)"
    and "api_prepare_v2 api d1 query = (SQLITE_OK, True, d2)"
    and "sqlite_do_bind api binds 1 d2 = (err, d3)" and "err \<noteq> SQLITE_OK"
    and "api_step api d3 = (SQLITE_DONE, d4)"
  shows "result_m (fst (sqlite_execute_impl api query binds d)) = SQL_OK
    \<and> last_id_m (fst (sqlite_execute_impl api query binds d)) = api_last_insert_rowid api d4
    \<and> affected_rows_m (fst (sqlite_execute_impl api query binds d)) = api_changes api d4
    \<and> snd (sqlite_execute_impl api query binds d) = transaction_dtor (sqlite_native api) tr d4"
  using assms
  by (simp add: sqlite_execute_impl_def sqlite_statement_new_def sqlite_statement_ctor_def)

text \<open>
  C6. The claim says that the handle of an execution whose native step fails reports
  the outcome of that failure, with the two counters at 0. In the SQLite driver it does
  not when the step that fails is the binding. A builder holds an INSERT without
  parameters and one bound value; \<open>execute()\<close> hands both to the driver: BEGIN and the
  preparation succeed, the bind is out of range, the constructor of the statement steps
  the INSERT, and ROLLBACK follows. The handle reports \<open>SQL_OK\<close>, last identifier 1 and
  one affected row.
\<close>

theorem sqlite_bind_failure_reports_ok:
  "(let q = bind (field_text ''extra'' []) (query_ctor ''INSERT INTO test(iint) VALUES (1)'' :: nat query);
        (st, q', d) = execute (sqlite_execute_impl log_sqlite) q []
    in result_m st = SQL_OK \<and> last_id_m st = 1 \<and> affected_rows_m st = 1
       \<and> d = [''BEGIN;'', ''prepare'', ''bind'', ''step'', ''ROLLBACK;''])"
  by code_simp

section \<open>Substituting column names\<close>

lemma str_find_None: "p \<noteq> [] \<Longrightarrow> str_find q p = None \<Longrightarrow> \<not> prefix p (drop k q)"
proof (induction q arbitrary: k)
  case Nil
  then show ?case by simp
next
  case (Cons c cs)
  then show ?case by (cases k) (auto split: if_splits)
qed

lemma str_find_Some:
  "str_find q p = Some n \<Longrightarrow>
   n \<le> length q \<and> prefix p (drop n q) \<and> (\<forall>k<n. \<not> prefix p (drop k q))"
proof (induction q arbitrary: n)
  case Nil
  then show ?case by (simp split: if_splits)
next
  case (Cons c cs)
  show ?case
  proof (cases "prefix p (c # cs)")
    case True
    with Cons.prems show ?thesis by simp
  next
    case False
    with Cons.prems obtain m where m: "str_find cs p = Some m" "n = Suc m" by auto
    from Cons.IH [OF m(1)] False m(2) show ?thesis
      by (auto simp: less_Suc_eq_0_disj)
  qed
qed

lemma replace_all_Nil: "replace_all p s [] = []"
  by (simp add: replace_all.simps)

lemma replace_all_skip:
  "(\<forall>k<length U. \<not> prefix p (drop k (U @ V))) \<Longrightarrow>
   replace_all p s (U @ V) = U @ replace_all p s V"
proof (induction U)
  case Nil
  show ?case by simp
next
  case (Cons c U)
  from Cons.prems have 0: "\<not> prefix p (c # U @ V)" by fastforce
  have "\<forall>k<length U. \<not> prefix p (drop k (U @ V))"
  proof (intro allI impI)
    fix k assume "k < length U"
    with Cons.prems have "\<not> prefix p (drop (Suc k) ((c # U) @ V))" by (metis Suc_less_eq length_Cons)
    then show "\<not> prefix p (drop k (U @ V))" by simp
  qed
  from Cons.IH [OF this] 0 show ?case
    by (subst replace_all.simps) simp
qed

lemma replace_all_hit:
  assumes "p \<noteq> []"
  shows "replace_all p s (p @ R) = s @ replace_all p s R"
proof -
  from assms obtain c p' where p: "p = c # p'" by (cases p) auto
  show ?thesis
    unfolding p using replace_all.simps [of "c # p'" s "c # p' @ R"] by simp
qed

lemma replace_all_none:
  assumes "\<And>k. \<not> prefix p (drop k q)"
  shows "replace_all p s q = q"
  using replace_all_skip [of q p "[]" s] assms by (simp add: replace_all_Nil)

text \<open>No new occurrence arises when the first occurrence is replaced by a suitable text.\<close>

lemma no_new_occurrence:
  assumes p: "p = c0 # rest" and c0: "c0 \<notin> set s" and s: "s \<noteq> []" and hd: "hd s \<notin> set rest"
    and old: "\<forall>k<length L. \<not> prefix p (drop k (L @ p @ R))"
    and k: "k < length (L @ s)"
  shows "\<not> prefix p (drop k ((L @ s) @ R))"
proof (cases "k < length L")
  case True
  define L' where "L' = drop k L"
  from True have L': "L' \<noteq> []" by (simp add: L'_def)
  from True have d: "drop k ((L @ s) @ R) = L' @ s @ R" "drop k (L @ p @ R) = L' @ p @ R"
    by (simp_all add: L'_def)
  show ?thesis
  proof
    assume a: "prefix p (drop k ((L @ s) @ R))"
    have "prefix p (L' @ s @ R)" using a unfolding d(1) .
    have np: "\<not> prefix p L'"
    proof
      assume "prefix p L'"
      then have "prefix p (L' @ p @ R)" by (simp add: prefix_append)
      moreover from old True have "\<not> prefix p (drop k (L @ p @ R))" by blast
      ultimately show False unfolding d(2) by simp
    qed
    from \<open>prefix p (L' @ s @ R)\<close>
    have "prefix p L' \<or> (\<exists>us. p = L' @ us \<and> prefix us (s @ R))"
      by (simp only: prefix_append)
    with np obtain us where us: "p = L' @ us" "prefix us (s @ R)" by blast
    from us(1) np have une: "us \<noteq> []" by auto
    from us(2) une s have "hd us = hd s"
      by (cases us; cases s) (auto simp: prefix_Cons)
    moreover from us(1) une L' p have "hd us \<in> set rest"
      by (cases L'; cases us) auto
    ultimately show False using hd by simp
  qed
next
  case False
  define s' where "s' = drop (k - length L) s"
  from False k have s': "s' \<noteq> []" "set s' \<subseteq> set s"
    by (auto simp: s'_def dest: in_set_dropD)
  from False k have d: "drop k ((L @ s) @ R) = s' @ R" by (simp add: s'_def)
  show ?thesis
  proof
    assume "prefix p (drop k ((L @ s) @ R))"
    then have "prefix p (s' @ R)" unfolding d .
    with s' p have "c0 = hd s'" by (cases s') auto
    with s' c0 show False by (cases s') auto
  qed
qed

lemma first_occurrence_split:
  assumes "str_find q p = Some pos"
  shows "q = take pos q @ p @ drop (pos + length p) q"
proof -
  from str_find_Some [OF assms] have "prefix p (drop pos q)" by simp
  then obtain zs where zs: "drop pos q = p @ zs" by (auto simp: prefix_def)
  then have "drop (pos + length p) q = zs"
    by (metis add.commute append_eq_conv_conj drop_drop)
  with zs show ?thesis by (metis append_take_drop_id)
qed

lemma replace_loop_replace_all:
  assumes p: "p = c0 # rest" "c0 \<notin> set rest" "NUL \<notin> set p"
    and s: "c0 \<notin> set s" "s \<noteq> []" "hd s \<notin> set rest"
  shows "replace_loop q p s = Some (replace_all p s q)"
proof (induction "length (filter (\<lambda>c. c = c0) q)" arbitrary: q rule: less_induct)
  case less
  from p(3) have cp: "c_str p = p" "strlen p = length p"
    by (simp_all add: strlen_def c_str_no_NUL)
  from p(1) have pne: "p \<noteq> []" by simp
  show ?case
  proof (cases "str_find q p")
    case None
    from str_find_None [OF pne None] have "replace_all p s q = q"
      by (intro replace_all_none) simp
    with None show ?thesis
      by (subst replace_loop.simps) (simp add: cp)
  next
    case (Some pos)
    define L where "L = take pos q"
    define R where "R = drop (pos + length p) q"
    from first_occurrence_split [OF Some] have q: "q = L @ p @ R"
      by (simp add: L_def R_def)
    from str_find_Some [OF Some] have pos: "pos \<le> length q" "\<forall>k<pos. \<not> prefix p (drop k q)"
      by simp_all
    from pos(1) have lenL: "length L = pos" by (simp add: L_def)
    from pos(2) lenL q have old: "\<forall>k<length L. \<not> prefix p (drop k (L @ p @ R))" by simp
    have q': "str_replace q pos (strlen p) s = (L @ s) @ R"
      by (simp add: str_replace_def cp L_def R_def)
    have "\<forall>k<length (L @ s). \<not> prefix p (drop k ((L @ s) @ R))"
      using no_new_occurrence [OF p(1) s(1) s(2) s(3) old] by blast
    then have new: "replace_all p s ((L @ s) @ R) = (L @ s) @ replace_all p s R"
      by (rule replace_all_skip)
    have "replace_all p s q = L @ replace_all p s (p @ R)"
      unfolding q using old by (rule replace_all_skip)
    with new have same: "replace_all p s ((L @ s) @ R) = replace_all p s q"
      by (simp add: replace_all_hit [OF pne])
    have fs: "filter (\<lambda>c. c = c0) s = []"
      using s(1) by (auto simp: filter_empty_conv)
    have "length (filter (\<lambda>c. c = c0) ((L @ s) @ R)) < length (filter (\<lambda>c. c = c0) q)"
      unfolding q using p(1) by (simp add: fs)
    from less [OF this] same
    have "replace_loop ((L @ s) @ R) p s = Some (replace_all p s q)" by simp
    with Some show ?thesis
      by (subst replace_loop.simps) (simp add: cp q' [unfolded cp])
  qed
qed

lemma is_digit_digit_char: "d < 10 \<Longrightarrow> is_digit (digit_char d)"
  by (simp add: is_digit_def digit_char_def)

lemma show_nat_digits: "\<forall>c\<in>set (show_nat 10 n). is_digit c"
proof (induction "10 :: nat" n rule: show_nat.induct)
  case (1 n)
  show ?case
  proof (cases "n < 10")
    case True
    then show ?thesis
      by (subst show_nat.simps) (simp add: is_digit_digit_char)
  next
    case False
    with 1 have "\<forall>c\<in>set (show_nat 10 (n div 10)). is_digit c" by simp
    with False show ?thesis
      by (subst show_nat.simps) (simp add: is_digit_digit_char)
  qed
qed

lemma placeholder_chars:
  "c \<in> set (show_nat 10 i @ [CHR ''}'']) \<Longrightarrow> is_digit c \<or> c = CHR ''}''"
  using show_nat_digits [of i] by auto

lemma placeholder_no_NUL: "NUL \<notin> set (placeholder i)"
  using show_nat_digits [of i] by (auto simp: placeholder_def NUL_def is_digit_def)

lemma placeholder_one_brace: "CHR ''{'' \<notin> set (show_nat 10 i @ [CHR ''}''])"
  using show_nat_digits [of i] by (auto simp: is_digit_def)

lemma replace_loop_placeholder:
  assumes "identifier_like s"
  shows "replace_loop q (placeholder i) s = Some (replace_all (placeholder i) s q)"
proof (rule replace_loop_replace_all)
  show "placeholder i = CHR ''{'' # (show_nat 10 i @ [CHR ''}''])" by (simp add: placeholder_def)
  show "CHR ''{'' \<notin> set (show_nat 10 i @ [CHR ''}''])" by (rule placeholder_one_brace)
  show "NUL \<notin> set (placeholder i)" by (rule placeholder_no_NUL)
  from assms show "CHR ''{'' \<notin> set s" "s \<noteq> []" by (simp_all add: identifier_like_def)
  from assms show "hd s \<notin> set (show_nat 10 i @ [CHR ''}''])"
    using placeholder_chars [of "hd s" i] by (auto simp: identifier_like_def)
qed

lemma format_loop_replace_all:
  "\<forall>s\<in>set names. identifier_like s \<Longrightarrow>
   format_loop names i q
     = Some (foldl (\<lambda>q (i, s). replace_all (placeholder i) s q) q (enumerate i names))"
  by (induction names arbitrary: i q) (simp_all add: replace_loop_placeholder)

lemma replace_all_filter:
  "\<forall>c\<in>set p. \<not> P c \<Longrightarrow> \<forall>c\<in>set s. \<not> P c \<Longrightarrow> filter P (replace_all p s q) = filter P q"
proof (induction p s q rule: replace_all.induct)
  case (1 p s q)
  from "1.prems" have fp: "filter P p = []" "filter P s = []"
    by (auto simp: filter_empty_conv)
  show ?case
  proof (cases q)
    case Nil
    then show ?thesis by (simp add: replace_all_Nil)
  next
    case (Cons c cs)
    show ?thesis
    proof (cases "p \<noteq> [] \<and> prefix p q")
      case True
      then obtain zs where zs: "q = p @ zs" by (auto simp: prefix_def)
      from True Cons 1
      have "filter P (replace_all p s (drop (length p) q)) = filter P (drop (length p) q)"
        by simp
      with zs True fp show ?thesis
        by (simp add: replace_all_hit)
    next
      case False
      with Cons 1 have "filter P (replace_all p s cs) = filter P cs" by simp
      with False Cons show ?thesis
        by (subst replace_all.simps) auto
    qed
  qed
qed

lemma replace_loop_self_Some:
  assumes "replace_loop q p s = Some y"
  shows "\<not> (q = ''{0}'' \<and> p = ''{0}'' \<and> s = ''{0}'')"
proof (rule replace_loop.raw_induct
    [where P = "\<lambda>q p s y. \<not> (q = ''{0}'' \<and> p = ''{0}'' \<and> s = ''{0}'')", OF _ assms])
  fix f :: "string \<Rightarrow> string \<Rightarrow> string \<Rightarrow> string option" and q p s y
  assume IH: "\<And>q p s y. f q p s = Some y \<Longrightarrow> \<not> (q = ''{0}'' \<and> p = ''{0}'' \<and> s = ''{0}'')"
    and step: "(case str_find q (c_str p) of None \<Rightarrow> Some q
      | Some pos \<Rightarrow> f (str_replace q pos (strlen p) s) p s) = Some y"
  show "\<not> (q = ''{0}'' \<and> p = ''{0}'' \<and> s = ''{0}'')"
  proof
    assume e: "q = ''{0}'' \<and> p = ''{0}'' \<and> s = ''{0}''"
    have "str_find ''{0}'' (c_str ''{0}'') = Some 0" by (simp add: c_str_def NUL_def)
    moreover have "str_replace ''{0}'' 0 (strlen ''{0}'') ''{0}'' = ''{0}''"
      by (simp add: str_replace_def strlen_def c_str_def NUL_def)
    ultimately have "f ''{0}'' ''{0}'' ''{0}'' = Some y" using step e by simp
    from IH [OF this] show False by simp
  qed
qed

lemma replace_loop_self_None: "replace_loop ''{0}'' ''{0}'' ''{0}'' = None"
proof (cases "replace_loop ''{0}'' ''{0}'' ''{0}''")
  case None
  then show ?thesis .
next
  case (Some y)
  from replace_loop_self_Some [OF this] show ?thesis by simp
qed

lemma placeholder_no_qmark: "\<forall>c\<in>set (placeholder i). \<not> c = CHR ''?''"
  using show_nat_digits [of i] by (auto simp: placeholder_def is_digit_def)

lemma foldl_replace_all_filter:
  "\<forall>s\<in>set names. CHR ''?'' \<notin> set s \<Longrightarrow>
   filter (\<lambda>c. c = CHR ''?'')
     (foldl (\<lambda>q (i, s). replace_all (placeholder i) s q) q (enumerate i names))
   = filter (\<lambda>c. c = CHR ''?'') q"
proof (induction names arbitrary: i q)
  case Nil
  show ?case by simp
next
  case (Cons s names)
  from Cons.prems have "\<forall>c\<in>set s. \<not> c = CHR ''?''" by auto
  with placeholder_no_qmark [of i]
  have "filter (\<lambda>c. c = CHR ''?'') (replace_all (placeholder i) s q) = filter (\<lambda>c. c = CHR ''?'') q"
    by (rule replace_all_filter)
  with Cons show ?case by simp
qed


lemma replace_loop_terminates:
  assumes p: "p = c0 # rest" "NUL \<notin> set p" and s: "c0 \<notin> set s"
  shows "\<exists>r. replace_loop q p s = Some r"
proof (induction "length (filter (\<lambda>c. c = c0) q)" arbitrary: q rule: less_induct)
  case less
  from p(2) have cp: "c_str p = p" "strlen p = length p"
    by (simp_all add: strlen_def c_str_no_NUL)
  show ?case
  proof (cases "str_find q p")
    case None
    then show ?thesis
      by (subst replace_loop.simps) (simp add: cp)
  next
    case (Some pos)
    define L where "L = take pos q"
    define R where "R = drop (pos + length p) q"
    from first_occurrence_split [OF Some] have q: "q = L @ p @ R"
      by (simp add: L_def R_def)
    have q': "str_replace q pos (length p) s = L @ s @ R"
      by (simp add: str_replace_def L_def R_def)
    have fs: "filter (\<lambda>c. c = c0) s = []"
      using s by (auto simp: filter_empty_conv)
    have "length (filter (\<lambda>c. c = c0) (L @ s @ R)) < length (filter (\<lambda>c. c = c0) q)"
      unfolding q using p(1) by (simp add: fs)
    from less [OF this] obtain r where "replace_loop (L @ s @ R) p s = Some r" by blast
    with Some show ?thesis
      by (subst replace_loop.simps) (simp add: cp q')
  qed
qed

lemma format_loop_terminates:
  "\<forall>s\<in>set names. CHR ''{'' \<notin> set s \<Longrightarrow> \<exists>r. format_loop names i q = Some r"
proof (induction names arbitrary: i q)
  case Nil
  show ?case by simp
next
  case (Cons s names)
  have "\<exists>r. replace_loop q (placeholder i) s = Some r"
  proof (rule replace_loop_terminates)
    show "placeholder i = CHR ''{'' # (show_nat 10 i @ [CHR ''}''])" by (simp add: placeholder_def)
    show "NUL \<notin> set (placeholder i)" by (rule placeholder_no_NUL)
    from Cons.prems show "CHR ''{'' \<notin> set s" by simp
  qed
  then obtain r where r: "replace_loop q (placeholder i) s = Some r" by blast
  from Cons.prems have "\<forall>s\<in>set names. CHR ''{'' \<notin> set s" by simp
  from Cons.IH [OF this, of "Suc i" r] r show ?case by simp
qed

lemma append_format_terminates:
  "\<forall>s\<in>set names. CHR ''{'' \<notin> set s \<Longrightarrow>
   \<exists>qu'. append_format names qu = Some qu' \<and> bind_m qu' = bind_m qu"
  using format_loop_terminates [of names 0 "query_m qu"]
  by (auto simp: append_format_def)


text \<open>
  C2 (amended). A format append of names none of which holds an opening brace returns and
  leaves the binding list as it is. When moreover every name is not empty and does not
  begin with a digit or a closing brace, the text it leaves is the accumulated text in
  which, for \<open>i = 0, 1, \<dots>\<close> in turn, every occurrence of the placeholder \<open>{i}\<close> is
  replaced from left to right by the \<open>i\<close>-th name, written as it is, without escaping;
  if no name holds a question mark, the question marks of the text are the same as
  before. The accumulated text \<^verbatim>\<open>INSERT INTO t ({0}, {1}) VALUES (?, ?)\<close> with the names
  a and b becomes \<^verbatim>\<open>INSERT INTO t (a, b) VALUES (?, ?)\<close>, and the name it's is
  substituted with its quote single.
\<close>

theorem append_format_substitutes:
  "((\<forall>s\<in>set names. CHR ''{'' \<notin> set s) \<longrightarrow>
      (\<exists>qu'. append_format names qu = Some qu' \<and> bind_m qu' = bind_m qu))
   \<and> ((\<forall>s\<in>set names. identifier_like s) \<longrightarrow>
      append_format names qu
        = Some (qu\<lparr>query_m :=
            foldl (\<lambda>q (i, s). replace_all (placeholder i) s q) (query_m qu) (enumerate 0 names)\<rparr>))
   \<and> ((\<forall>s\<in>set names. identifier_like s \<and> CHR ''?'' \<notin> set s) \<longrightarrow>
        (\<exists>qu'. append_format names qu = Some qu' \<and> bind_m qu' = bind_m qu
           \<and> filter (\<lambda>c. c = CHR ''?'') (query_m qu') = filter (\<lambda>c. c = CHR ''?'') (query_m qu)))
   \<and> append_format [''a'', ''b'']
        (query_ctor ''INSERT INTO t ({0}, {1}) VALUES (?, ?)'' :: nat query)
       = Some \<lparr>query_m = ''INSERT INTO t (a, b) VALUES (?, ?)'', bind_m = []\<rparr>
   \<and> append_format [''it's''] (query_ctor ''SELECT {0} FROM t'' :: nat query)
       = Some \<lparr>query_m = ''SELECT it's FROM t'', bind_m = []\<rparr>"
proof -
  have 0: "(\<forall>s\<in>set names. CHR ''{'' \<notin> set s) \<longrightarrow>
      (\<exists>qu'. append_format names qu = Some qu' \<and> bind_m qu' = bind_m qu)"
    using append_format_terminates [of names qu] by blast
  have 1: "(\<forall>s\<in>set names. identifier_like s) \<longrightarrow>
      append_format names qu
        = Some (qu\<lparr>query_m :=
            foldl (\<lambda>q (i, s). replace_all (placeholder i) s q) (query_m qu) (enumerate 0 names)\<rparr>)"
    by (simp add: append_format_def format_loop_replace_all)
  have 2: "(\<forall>s\<in>set names. identifier_like s \<and> CHR ''?'' \<notin> set s) \<longrightarrow>
        (\<exists>qu'. append_format names qu = Some qu' \<and> bind_m qu' = bind_m qu
           \<and> filter (\<lambda>c. c = CHR ''?'') (query_m qu') = filter (\<lambda>c. c = CHR ''?'') (query_m qu))"
    by (simp add: append_format_def format_loop_replace_all foldl_replace_all_filter)
  have 3: "append_format [''a'', ''b'']
        (query_ctor ''INSERT INTO t ({0}, {1}) VALUES (?, ?)'' :: nat query)
       = Some \<lparr>query_m = ''INSERT INTO t (a, b) VALUES (?, ?)'', bind_m = []\<rparr>"
    by code_simp
  have 4: "append_format [''it's''] (query_ctor ''SELECT {0} FROM t'' :: nat query)
       = Some \<lparr>query_m = ''SELECT it's FROM t'', bind_m = []\<rparr>"
    by code_simp
  from 0 1 2 3 4 show ?thesis by blast
qed


theorem append_format_substitutes_witness:
  "identifier_like ''name'' \<and> identifier_like ''iint''
   \<and> CHR ''?'' \<notin> set ''name'' \<and> CHR ''?'' \<notin> set ''iint''
   \<and> append_format [''name'', ''iint'']
        \<lparr>query_m = ''INSERT INTO test ({0}, {1}) VALUES (?, ?);'', bind_m = ([] :: nat field_type list)\<rparr>
       = Some \<lparr>query_m = ''INSERT INTO test (name, iint) VALUES (?, ?);'', bind_m = []\<rparr>"
proof -
  let ?qu = "\<lparr>query_m = ''INSERT INTO test ({0}, {1}) VALUES (?, ?);'', bind_m = ([] :: nat field_type list)\<rparr>"
  have h: "\<forall>s\<in>set [''name'', ''iint'']. identifier_like s \<and> CHR ''?'' \<notin> set s"
    by (simp add: identifier_like_def is_digit_def)
  then have h': "\<forall>s\<in>set [''name'', ''iint'']. identifier_like s" by simp
  have e: "foldl (\<lambda>q (i, s). replace_all (placeholder i) s q) (query_m ?qu) (enumerate 0 [''name'', ''iint''])
      = ''INSERT INTO test (name, iint) VALUES (?, ?);''"
    by code_simp
  from append_format_substitutes [of "[''name'', ''iint'']" ?qu] h'
  have "append_format [''name'', ''iint''] ?qu
      = Some (?qu\<lparr>query_m :=
            foldl (\<lambda>q (i, s). replace_all (placeholder i) s q) (query_m ?qu) (enumerate 0 [''name'', ''iint''])\<rparr>)"
    by blast
  moreover have "identifier_like ''name'' \<and> identifier_like ''iint''
      \<and> CHR ''?'' \<notin> set ''name'' \<and> CHR ''?'' \<notin> set ''iint''"
    using h by simp
  ultimately show ?thesis unfolding e by simp
qed


text \<open>
  The claim as it stands, for every list of names, fails where a name holds its own
  placeholder: the inner loop finds the placeholder again in what it has just written,
  and the append never returns.
\<close>

theorem append_format_counterexample:
  "append_format [''{0}''] \<lparr>query_m = ''{0}'', bind_m = ([] :: nat field_type list)\<rparr> = None"
proof -
  have "placeholder 0 = ''{0}''" by code_simp
  then show ?thesis
    by (simp add: append_format_def replace_loop_self_None)
qed


section \<open>Which queries produce results\<close>

lemma ends_literal:
  "i \<le> length text \<Longrightarrow>
   ends (literal kw) text i =
     (if i + length kw \<le> length text \<and> map tolower (take (length kw) (drop i text)) = map tolower kw
      then [i + length kw] else [])"
proof (induction kw arbitrary: i)
  case Nil
  then show ?case by (simp add: literal_def)
next
  case (Cons c kw)
  have l: "literal (c # kw) = Seq (Atom (Chr c)) (literal kw)"
    by (simp add: literal_def)
  show ?case
  proof (cases "i < length text")
    case False
    then show ?thesis by (simp add: l)
  next
    case True
    then have d: "drop i text = text ! i # drop (Suc i) text"
      by (simp add: Cons_nth_drop_Suc)
    from True have "Suc i \<le> length text" by simp
    note IH = Cons.IH [OF this]
    from True show ?thesis
      by (auto simp: l d IH)
  qed
qed

lemma ends_Seq_nonempty:
  "ends (Seq r1 r2) text i \<noteq> [] \<longleftrightarrow> (\<exists>j\<in>set (ends r1 text i). ends r2 text j \<noteq> [])"
  by auto

lemma ends_keyword_regex:
  assumes "i \<le> length text"
  shows "ends (keyword_regex kw) text i \<noteq> [] \<longleftrightarrow> keyword_at kw text i"
proof -
  have "ends (keyword_regex kw) text i \<noteq> [] \<longleftrightarrow>
      word_boundary text i \<and> (\<exists>j\<in>set (ends (literal kw) text i). word_boundary text j)"
    unfolding keyword_regex_def ends_Seq_nonempty by simp
  then show ?thesis
    by (simp add: ends_literal [OF assms] keyword_at_def)
qed

lemma tolower_fixed:
  assumes "\<not> (65 \<le> (of_char c :: nat) \<and> (of_char c :: nat) \<le> 90)"
    and "\<not> (97 \<le> (of_char c :: nat) \<and> (of_char c :: nat) \<le> 122)"
  shows "tolower x = tolower c \<longleftrightarrow> x = c"
proof -
  from assms have c: "tolower c = c" by (auto simp: tolower_def Let_def)
  show ?thesis
  proof (cases "65 \<le> (of_char x :: nat) \<and> (of_char x :: nat) \<le> 90")
    case False
    then have "tolower x = x" by (auto simp: tolower_def Let_def)
    then show ?thesis by (simp add: c)
  next
    case True
    then have "(of_char (tolower x) :: nat) = of_char x + 32"
      by (simp add: tolower_def Let_def)
    with True assms have "tolower x \<noteq> c" "x \<noteq> c" by auto
    then show ?thesis by (simp add: c)
  qed
qed

lemma tolower_rparen: "tolower x = tolower (CHR '')'') \<longleftrightarrow> x = CHR '')''"
  by (rule tolower_fixed) simp_all

lemma tolower_lparen: "tolower x = tolower (CHR ''('') \<longleftrightarrow> x = CHR ''(''"
  by (rule tolower_fixed) simp_all

lemma atom_ok_NotChr_lparen: "atom_ok (NotChr (CHR ''('')) = (\<lambda>c. c \<noteq> CHR ''('')"
  by (simp add: fun_eq_iff tolower_lparen)

lemma ends_closing_first:
  "ends closing_first text j \<noteq> [] \<longleftrightarrow> inside_parens text j"
proof -
  define tw where "tw = takeWhile (\<lambda>c. c \<noteq> CHR ''('') (drop j text)"
  have len: "length tw \<le> length text - j"
    unfolding tw_def using length_takeWhile_le [of "\<lambda>c. c \<noteq> CHR ''(''" "drop j text"] by simp
  have nth: "tw ! k = text ! (j + k)" if "k < length tw" for k
  proof -
    from that len have "j \<le> length text" by simp
    with that show ?thesis unfolding tw_def by (simp add: takeWhile_nth)
  qed
  have stop: "j + length tw < length text \<Longrightarrow> text ! (j + length tw) = CHR ''(''"
    unfolding tw_def
    using nth_length_takeWhile [of "\<lambda>c. c \<noteq> CHR ''(''" "drop j text"] by simp
  have A: "set (ends (Star (NotChr (CHR ''(''))) text j) = (\<lambda>k. j + k) ` {0..<Suc (length tw)}"
    by (simp add: atom_ok_NotChr_lparen tw_def del: upt_Suc)
  have B: "ends (Atom (Chr (CHR '')''))) text m \<noteq> [] \<longleftrightarrow> m < length text \<and> text ! m = CHR '')''"
    for m
    by (simp add: tolower_rparen)
  have "ends closing_first text j \<noteq> [] \<longleftrightarrow>
      (\<exists>k \<le> length tw. j + k < length text \<and> text ! (j + k) = CHR '')'')"
    (is "?L \<longleftrightarrow> ?R")
  proof
    assume ?L
    then obtain m where m: "m \<in> (\<lambda>k. j + k) ` {0..<Suc (length tw)}"
      "m < length text" "text ! m = CHR '')''"
      unfolding closing_first_def ends_Seq_nonempty A B by blast
    from m(1) obtain k where k: "m = j + k" "k \<in> {0..<Suc (length tw)}" by blast
    from k(2) have "k \<le> length tw" by simp
    moreover from m(2,3) k(1) have "j + k < length text \<and> text ! (j + k) = CHR '')''" by simp
    ultimately show ?R by (intro exI conjI) auto
  next
    assume ?R
    then obtain k where k: "k \<le> length tw" "j + k < length text" "text ! (j + k) = CHR '')''"
      by blast
    then have "j + k \<in> (\<lambda>k. j + k) ` {0..<Suc (length tw)}" by simp
    with k show ?L
      unfolding closing_first_def ends_Seq_nonempty A B by blast
  qed
  also have "\<dots> \<longleftrightarrow> (\<exists>k < length tw. tw ! k = CHR '')'')"
  proof
    assume "\<exists>k \<le> length tw. j + k < length text \<and> text ! (j + k) = CHR '')''"
    then obtain k where k: "k \<le> length tw" "j + k < length text" "text ! (j + k) = CHR '')''"
      by blast
    have "k \<noteq> length tw"
    proof
      assume "k = length tw"
      with k stop show False by simp
    qed
    with k have "k < length tw" by simp
    with k nth show "\<exists>k < length tw. tw ! k = CHR '')''" by auto
  next
    assume "\<exists>k < length tw. tw ! k = CHR '')''"
    then obtain k where "k < length tw" "tw ! k = CHR '')''" by blast
    with len nth have "k \<le> length tw \<and> j + k < length text \<and> text ! (j + k) = CHR '')''"
      by auto
    then show "\<exists>k \<le> length tw. j + k < length text \<and> text ! (j + k) = CHR '')''" by blast
  qed
  also have "\<dots> \<longleftrightarrow> CHR '')'' \<in> set tw"
    by (auto simp: in_set_conv_nth)
  finally show ?thesis by (simp add: inside_parens_def tw_def)
qed

lemma ends_select_regex:
  assumes "i \<le> length text"
  shows "ends select_regex text i \<noteq> [] \<longleftrightarrow>
     keyword_at ''SELECT'' text i \<and> \<not> inside_parens text (i + length ''SELECT'')"
proof -
  have "ends select_regex text i \<noteq> [] \<longleftrightarrow>
      word_boundary text i
      \<and> (\<exists>j\<in>set (ends (literal ''SELECT'') text i).
            word_boundary text j \<and> ends closing_first text j = [])"
    unfolding select_regex_def ends_Seq_nonempty by auto
  then show ?thesis
    by (simp add: ends_literal [OF assms] keyword_at_def ends_closing_first [symmetric])
qed

lemma regex_search_iff:
  "regex_search text r \<longleftrightarrow> (\<exists>i \<le> length text. ends r text i \<noteq> [])"
  by (auto simp: regex_search_def list_ex_iff less_Suc_eq_le simp del: upt_Suc)

lemma query_has_results_iff:
  "query_has_results query \<longleftrightarrow>
     (\<exists>i \<le> length (c_str query).
        keyword_at ''DESC'' (c_str query) i
        \<or> keyword_at ''SHOW'' (c_str query) i
        \<or> keyword_at ''EXPLAIN'' (c_str query) i
        \<or> keyword_at ''DESCRIBE'' (c_str query) i
        \<or> (keyword_at ''SELECT'' (c_str query) i
            \<and> \<not> inside_parens (c_str query) (i + length ''SELECT'')))"
proof -
  let ?q = "c_str query"
  have k: "regex_search ?q (keyword_regex kw) \<longleftrightarrow> (\<exists>i \<le> length ?q. keyword_at kw ?q i)" for kw
    unfolding regex_search_iff using ends_keyword_regex [of _ ?q kw] by blast
  have s: "regex_search ?q select_regex \<longleftrightarrow>
      (\<exists>i \<le> length ?q. keyword_at ''SELECT'' ?q i \<and> \<not> inside_parens ?q (i + length ''SELECT''))"
    unfolding regex_search_iff using ends_select_regex [of _ ?q] by blast
  have "query_has_results query \<longleftrightarrow>
      regex_search ?q (keyword_regex ''DESC'') \<or> regex_search ?q (keyword_regex ''SHOW'')
      \<or> regex_search ?q (keyword_regex ''EXPLAIN'') \<or> regex_search ?q (keyword_regex ''DESCRIBE'')
      \<or> regex_search ?q select_regex"
    by (simp add: query_has_results_def expect_results_def)
  then show ?thesis
    unfolding k s by blast
qed

text \<open>
  C3 (amended). \<open>query_has_results\<close> takes a query text for result-producing if and only
  if the text holds DESC, SHOW, EXPLAIN or DESCRIBE, in any letter case and between word
  boundaries, at any place, inside parentheses or not, or holds SELECT in that way at a
  place after which no closing parenthesis comes before the next opening one.
  \<^verbatim>\<open>SELECT * FROM t\<close> is result-producing, \<^verbatim>\<open>UPDATE t SET x=1\<close> is not, and
  \<^verbatim>\<open>INSERT INTO t(x) SELECT 1\<close> is, since no parenthesis follows its SELECT.
\<close>

theorem query_has_results_classifies:
  "(query_has_results query \<longleftrightarrow>
     (\<exists>i \<le> length (c_str query).
        keyword_at ''DESC'' (c_str query) i
        \<or> keyword_at ''SHOW'' (c_str query) i
        \<or> keyword_at ''EXPLAIN'' (c_str query) i
        \<or> keyword_at ''DESCRIBE'' (c_str query) i
        \<or> (keyword_at ''SELECT'' (c_str query) i
            \<and> \<not> inside_parens (c_str query) (i + length ''SELECT''))))
   \<and> query_has_results ''SELECT * FROM t''
   \<and> \<not> query_has_results ''UPDATE t SET x=1''
   \<and> query_has_results ''INSERT INTO t(x) SELECT 1''"
proof -
  have 1: "query_has_results ''SELECT * FROM t''" by code_simp
  have 2: "\<not> query_has_results ''UPDATE t SET x=1''" by code_simp
  have 3: "query_has_results ''INSERT INTO t(x) SELECT 1''" by code_simp
  from 1 2 3 query_has_results_iff [of query] show ?thesis by blast
qed


text \<open>
  The claim as it stands excludes every keyword inside parentheses. The source does so
  for SELECT only: an INSERT whose value list holds the word show is taken for
  result-producing, though no keyword stands outside parentheses, in either reading of
  inside.
\<close>

theorem query_has_results_counterexample:
  "query_has_results ''INSERT INTO t (a) VALUES ('show')''
   \<and> \<not> claimed_has_results ''INSERT INTO t (a) VALUES ('show')''
   \<and> \<not> claimed_has_results_nested ''INSERT INTO t (a) VALUES ('show')''"
  by code_simp

end
